theory Spec2Isabelle
  imports Complex_Main
begin

section \<open>Data model of \<^verbatim>\<open>stl_tool.py\<close>\<close>

text \<open>
  The four generators of \<^verbatim>\<open>src/stl_tool.py\<close> build a list of vertices (each a Python
  list \<^verbatim>\<open>[x, y, z]\<close> of floats) and a list of faces (each a Python list of three
  vertex indices), copy the vertices of every face into the mesh object, save it and
  return the pair \<^verbatim>\<open>(vertices, faces)\<close>.

  Coordinates are modelled as exact reals, indices and loop counters as naturals (every
  \<^verbatim>\<open>range\<close> of the source starts at 0 or 1 and every index is a sum of such counters), the
  segment-count arguments as Python's unbounded integers.  The file name and the write
  of the file belong to the external mesh library and are not part of the model; the
  \<^verbatim>\<open>print\<close> calls, and the report of \<^verbatim>\<open>create_cylinder_stl\<close> on the normals of its
  first four faces, have no effect on the result.
\<close>

type_synonym vertex = "real \<times> real \<times> real"
type_synonym face = "nat \<times> nat \<times> nat"
type_synonym triangle = "vertex \<times> vertex \<times> vertex"

datatype error = IndexError

text \<open>\<^verbatim>\<open>vertices[k, :]\<close> for a non-negative \<^verbatim>\<open>k\<close>: raises beyond the end of the array.\<close>

definition vertex_at :: "vertex list \<Rightarrow> nat \<Rightarrow> error + vertex" where
  "vertex_at vertices k = (if k < length vertices then Inr (vertices ! k) else Inl IndexError)"

text \<open>
  The loop that fills the mesh, the same in all four generators:
  \<^verbatim>\<open>for i, f in enumerate(faces): for j in range(3): m.vectors[i][j] = vertices[f[j], :]\<close>.
\<close>

fun face_vectors :: "vertex list \<Rightarrow> face \<Rightarrow> error + triangle" where
  "face_vectors vertices (f0, f1, f2) =
     (case vertex_at vertices f0 of Inl e \<Rightarrow> Inl e | Inr p0 \<Rightarrow>
       (case vertex_at vertices f1 of Inl e \<Rightarrow> Inl e | Inr p1 \<Rightarrow>
         (case vertex_at vertices f2 of Inl e \<Rightarrow> Inl e | Inr p2 \<Rightarrow> Inr (p0, p1, p2))))"

fun mesh_vectors :: "vertex list \<Rightarrow> face list \<Rightarrow> error + triangle list" where
  "mesh_vectors vertices [] = Inr []"
| "mesh_vectors vertices (f # faces) =
     (case face_vectors vertices f of Inl e \<Rightarrow> Inl e | Inr t \<Rightarrow>
       (case mesh_vectors vertices faces of Inl e \<Rightarrow> Inl e | Inr ts \<Rightarrow> Inr (t # ts)))"

text \<open>What every generator does after building its two lists.\<close>

definition save_and_return ::
  "vertex list \<Rightarrow> face list \<Rightarrow> error + (vertex list \<times> face list)" where
  "save_and_return vertices faces =
     (case mesh_vectors vertices faces of Inl e \<Rightarrow> Inl e | Inr ts \<Rightarrow> Inr (vertices, faces))"

section \<open>The generators\<close>

subsection \<open>\<^verbatim>\<open>create_cylinder_stl\<close>\<close>

definition cylinder_vertices :: "real \<Rightarrow> real \<Rightarrow> nat \<Rightarrow> vertex list" where
  "cylinder_vertices radius height num_segments =
     [(0, 0, - height / 2), (0, 0, height / 2)]
     @ map (\<lambda>i. let angle = 2 * pi * real i / real num_segments
                in (radius * cos angle, radius * sin angle, - height / 2)) [0..<num_segments]
     @ map (\<lambda>i. let angle = 2 * pi * real i / real num_segments
                in (radius * cos angle, radius * sin angle, height / 2)) [0..<num_segments]"

definition cylinder_faces :: "nat \<Rightarrow> face list" where
  "cylinder_faces num_segments =
     map (\<lambda>i. let next_i = (i + 1) mod num_segments
               in (0, 2 + next_i, 2 + i)) [0..<num_segments]
     @ map (\<lambda>i. let next_i = (i + 1) mod num_segments
               in (1, 2 + num_segments + i, 2 + num_segments + next_i)) [0..<num_segments]
     @ concat (map (\<lambda>i. let next_i = (i + 1) mod num_segments;
                             bottom_current = 2 + i;
                             bottom_next = 2 + next_i;
                             top_current = 2 + num_segments + i;
                             top_next = 2 + num_segments + next_i
                         in [(bottom_current, bottom_next, top_next),
                             (bottom_current, top_next, top_current)]) [0..<num_segments])"

definition create_cylinder_stl ::
  "real \<Rightarrow> real \<Rightarrow> int \<Rightarrow> error + (vertex list \<times> face list)" where
  "create_cylinder_stl radius height num_segments =
     (let num_segments = nat (max 3 num_segments)
      in save_and_return (cylinder_vertices radius height num_segments)
           (cylinder_faces num_segments))"

subsection \<open>\<^verbatim>\<open>create_sphere_stl\<close>\<close>

definition sphere_vertices :: "real \<Rightarrow> nat \<Rightarrow> nat \<Rightarrow> vertex list" where
  "sphere_vertices radius num_segments_vertical num_segments_horizontal =
     [(0, 0, radius)]
     @ concat (map (\<lambda>i. let theta = pi * real i / real num_segments_vertical;
                             z = radius * cos theta;
                             circle_radius = radius * sin theta
                         in map (\<lambda>j. let phi = 2 * pi * real j / real num_segments_horizontal
                                     in (circle_radius * cos phi, circle_radius * sin phi, z))
                              [0..<num_segments_horizontal])
                [1..<num_segments_vertical])
     @ [(0, 0, - radius)]"

definition sphere_faces :: "nat \<Rightarrow> nat \<Rightarrow> nat \<Rightarrow> face list" where
  "sphere_faces len_vertices num_segments_vertical num_segments_horizontal =
     map (\<lambda>j. let next_j = (j + 1) mod num_segments_horizontal
               in (0, 1 + next_j, 1 + j)) [0..<num_segments_horizontal]
     @ concat (map (\<lambda>i. concat (map (\<lambda>j.
           let next_j = (j + 1) mod num_segments_horizontal;
               current_vertex = 1 + i * num_segments_horizontal + j;
               current_next = 1 + i * num_segments_horizontal + next_j;
               next_lat_vertex = 1 + (i + 1) * num_segments_horizontal + j;
               next_lat_next = 1 + (i + 1) * num_segments_horizontal + next_j
           in [(current_vertex, current_next, next_lat_next),
               (current_vertex, next_lat_next, next_lat_vertex)])
         [0..<num_segments_horizontal])) [0..<num_segments_vertical - 2])
     @ (let south_pole_index = len_vertices - 1;
            last_latitude_start = 1 + (num_segments_vertical - 2) * num_segments_horizontal
        in map (\<lambda>j. let next_j = (j + 1) mod num_segments_horizontal
                     in (last_latitude_start + j, last_latitude_start + next_j, south_pole_index))
             [0..<num_segments_horizontal])"

definition create_sphere_stl ::
  "real \<Rightarrow> int \<Rightarrow> int \<Rightarrow> error + (vertex list \<times> face list)" where
  "create_sphere_stl radius num_segments_vertical num_segments_horizontal =
     (let num_segments_vertical = nat (max 3 num_segments_vertical);
          num_segments_horizontal = nat (max 3 num_segments_horizontal);
          vertices = sphere_vertices radius num_segments_vertical num_segments_horizontal
      in save_and_return vertices
           (sphere_faces (length vertices) num_segments_vertical num_segments_horizontal))"

subsection \<open>\<^verbatim>\<open>create_cone_stl\<close>\<close>

definition cone_vertices :: "real \<Rightarrow> real \<Rightarrow> nat \<Rightarrow> vertex list" where
  "cone_vertices radius height num_segments =
     [(0, 0, 0), (0, 0, height)]
     @ map (\<lambda>i. let angle = 2 * pi * real i / real num_segments
                in (radius * cos angle, radius * sin angle, 0)) [0..<num_segments]"

definition cone_faces :: "nat \<Rightarrow> face list" where
  "cone_faces num_segments =
     map (\<lambda>i. let next_i = (i + 1) mod num_segments
               in (0, 2 + next_i, 2 + i)) [0..<num_segments]
     @ map (\<lambda>i. let next_i = (i + 1) mod num_segments;
                     bottom_current = 2 + i;
                     bottom_next = 2 + next_i;
                     apex = 1
                 in (bottom_current, bottom_next, apex)) [0..<num_segments]"

definition create_cone_stl ::
  "real \<Rightarrow> real \<Rightarrow> int \<Rightarrow> error + (vertex list \<times> face list)" where
  "create_cone_stl radius height num_segments =
     (let num_segments = nat (max 3 num_segments)
      in save_and_return (cone_vertices radius height num_segments) (cone_faces num_segments))"

subsection \<open>\<^verbatim>\<open>create_cone_with_top_stl\<close>\<close>

definition frustum_vertices :: "real \<Rightarrow> real \<Rightarrow> real \<Rightarrow> nat \<Rightarrow> vertex list" where
  "frustum_vertices bottom_radius top_radius height num_segments =
     [(0, 0, 0), (0, 0, height)]
     @ map (\<lambda>i. let angle = 2 * pi * real i / real num_segments
                in (bottom_radius * cos angle, bottom_radius * sin angle, 0)) [0..<num_segments]
     @ map (\<lambda>i. let angle = 2 * pi * real i / real num_segments
                in (top_radius * cos angle, top_radius * sin angle, height)) [0..<num_segments]"

definition frustum_faces :: "nat \<Rightarrow> face list" where
  "frustum_faces num_segments =
     map (\<lambda>i. let next_i = (i + 1) mod num_segments
               in (0, 2 + next_i, 2 + i)) [0..<num_segments]
     @ map (\<lambda>i. let next_i = (i + 1) mod num_segments
               in (1, 2 + num_segments + i, 2 + num_segments + next_i)) [0..<num_segments]
     @ concat (map (\<lambda>i. let next_i = (i + 1) mod num_segments;
                             bottom_current = 2 + i;
                             bottom_next = 2 + next_i;
                             top_current = 2 + num_segments + i;
                             top_next = 2 + num_segments + next_i
                         in [(bottom_current, bottom_next, top_next),
                             (bottom_current, top_next, top_current)]) [0..<num_segments])"

definition create_cone_with_top_stl ::
  "real \<Rightarrow> real \<Rightarrow> real \<Rightarrow> int \<Rightarrow> error + (vertex list \<times> face list)" where
  "create_cone_with_top_stl bottom_radius top_radius height num_segments =
     (let num_segments = nat (max 3 num_segments)
      in save_and_return (frustum_vertices bottom_radius top_radius height num_segments)
           (frustum_faces num_segments))"

section \<open>Properties of a generated mesh\<close>

text \<open>A call returns a value, and the value has the property \<open>P\<close>.\<close>

definition returns :: "error + 'a \<Rightarrow> ('a \<Rightarrow> bool) \<Rightarrow> bool" where
  "returns r P = (case r of Inl e \<Rightarrow> False | Inr m \<Rightarrow> P m)"

text \<open>The three indices of a face are indices of a vertex list of length \<open>n\<close>.\<close>

definition face_in_range :: "nat \<Rightarrow> face \<Rightarrow> bool" where
  "face_in_range n f = (case f of (f0, f1, f2) \<Rightarrow> f0 < n \<and> f1 < n \<and> f2 < n)"

definition indices_in_range :: "vertex list \<times> face list \<Rightarrow> bool" where
  "indices_in_range m = (\<forall>f \<in> set (snd m). face_in_range (length (fst m)) f)"

text \<open>
  The successor on a ring of \<open>N\<close> vertices, \<^verbatim>\<open>next_i = (i + 1) % num_segments\<close> in every face
  loop of the source.
\<close>

definition nxt :: "nat \<Rightarrow> nat \<Rightarrow> nat" where
  "nxt N i = (i + 1) mod N"

text \<open>A face names three different vertices.\<close>

definition face_distinct :: "face \<Rightarrow> bool" where
  "face_distinct f = (case f of (f0, f1, f2) \<Rightarrow> f0 \<noteq> f1 \<and> f1 \<noteq> f2 \<and> f0 \<noteq> f2)"

definition no_degenerate_face :: "vertex list \<times> face list \<Rightarrow> bool" where
  "no_degenerate_face m = (\<forall>f \<in> set (snd m). face_distinct f)"

text \<open>Moving a vertex by a vector.\<close>

fun translate :: "vertex \<Rightarrow> vertex \<Rightarrow> vertex" where
  "translate (dx, dy, dz) (x, y, z) = (x + dx, y + dy, z + dz)"

text \<open>The Euclidean length of a vector (\<^verbatim>\<open>np.linalg.norm\<close>).\<close>

fun norm3 :: "vertex \<Rightarrow> real" where
  "norm3 (x, y, z) = sqrt (x\<^sup>2 + y\<^sup>2 + z\<^sup>2)"

subsection \<open>The sphere as the specification words it\<close>

text \<open>
  These definitions follow the words of the specification (its sections 4.1 and 4.3),
  not the source: the point \<open>j\<close> of a ring of \<open>N\<close> points, the vertex list (north pole, the
  rings of the latitude bands \<open>i \<in> [1, Nv)\<close>, south pole), the index that this order gives
  to the vertex \<open>j\<close> of the ring of band \<open>i\<close>, and the three groups of faces written with
  the vertices of those rings; the south pole has the final index \<open>1 + (Nv - 1) Nh\<close>.
\<close>

definition spec_ring_point :: "real \<Rightarrow> real \<Rightarrow> nat \<Rightarrow> nat \<Rightarrow> vertex" where
  "spec_ring_point ring_radius z N j =
     (ring_radius * cos (2 * pi * real j / real N), ring_radius * sin (2 * pi * real j / real N), z)"

definition spec_sphere_vertices :: "real \<Rightarrow> nat \<Rightarrow> nat \<Rightarrow> vertex list" where
  "spec_sphere_vertices r Nv Nh =
     (0, 0, r)
     # concat (map (\<lambda>i. map (spec_ring_point (r * sin (pi * real i / real Nv))
                                (r * cos (pi * real i / real Nv)) Nh) [0..<Nh]) [1..<Nv])
     @ [(0, 0, - r)]"

definition spec_ring :: "nat \<Rightarrow> nat \<Rightarrow> nat \<Rightarrow> nat" where
  "spec_ring Nh i j = 1 + (i - 1) * Nh + j"

definition spec_sphere_faces :: "nat \<Rightarrow> nat \<Rightarrow> face list" where
  "spec_sphere_faces Nv Nh =
     map (\<lambda>j. (0, spec_ring Nh 1 (nxt Nh j), spec_ring Nh 1 j)) [0..<Nh]
     @ concat (map (\<lambda>i. concat (map (\<lambda>j.
          [(spec_ring Nh i j, spec_ring Nh i (nxt Nh j), spec_ring Nh (i + 1) (nxt Nh j)),
           (spec_ring Nh i j, spec_ring Nh (i + 1) (nxt Nh j), spec_ring Nh (i + 1) j)])
          [0..<Nh])) [1..<Nv - 1])
     @ map (\<lambda>j. (spec_ring Nh (Nv - 1) j, spec_ring Nh (Nv - 1) (nxt Nh j), 1 + (Nv - 1) * Nh))
         [0..<Nh]"

subsection \<open>Face normals\<close>

text \<open>
  The normal of a face as \<^verbatim>\<open>create_cylinder_stl\<close> computes it for its report (and as
  the specification defines it for every face): \<^verbatim>\<open>u = v1 - v0\<close>, \<^verbatim>\<open>v = v2 - v0\<close>,
  \<^verbatim>\<open>normal = np.cross(u, v)\<close>, \<^verbatim>\<open>normal / np.linalg.norm(normal)\<close>.  For a face of no area
  numpy divides by zero and yields \<^verbatim>\<open>nan\<close>; HOL's division yields 0 there.
\<close>

fun vsub :: "vertex \<Rightarrow> vertex \<Rightarrow> vertex" where
  "vsub (x1, y1, z1) (x2, y2, z2) = (x1 - x2, y1 - y2, z1 - z2)"

fun cross :: "vertex \<Rightarrow> vertex \<Rightarrow> vertex" where
  "cross (ux, uy, uz) (vx, vy, vz) = (uy * vz - uz * vy, uz * vx - ux * vz, ux * vy - uy * vx)"

fun vdiv :: "vertex \<Rightarrow> real \<Rightarrow> vertex" where
  "vdiv (x, y, z) c = (x / c, y / c, z / c)"

fun triangle_normal :: "triangle \<Rightarrow> vertex" where
  "triangle_normal (v0, v1, v2) =
     (let u = vsub v1 v0; v = vsub v2 v0; normal = cross u v
      in vdiv normal (norm3 normal))"

definition face_normal :: "vertex list \<Rightarrow> face \<Rightarrow> error + vertex" where
  "face_normal vertices f =
     (case face_vectors vertices f of Inl e \<Rightarrow> Inl e | Inr t \<Rightarrow> Inr (triangle_normal t))"

subsection \<open>Edges and closed meshes\<close>

text \<open>The three undirected edges of a face, each the set of its two vertex indices.\<close>

fun edges_of :: "face \<Rightarrow> nat set set" where
  "edges_of (f0, f1, f2) = {{f0, f1}, {f1, f2}, {f2, f0}}"

text \<open>How many faces of a face list have a given undirected edge.\<close>

definition edge_count :: "nat set \<Rightarrow> face list \<Rightarrow> nat" where
  "edge_count e faces = length (filter (\<lambda>g. e \<in> edges_of g) faces)"

definition closed_mesh :: "vertex list \<times> face list \<Rightarrow> bool" where
  "closed_mesh m = (\<forall>f \<in> set (snd m). \<forall>e \<in> edges_of f. edge_count e (snd m) = 2)"

text \<open>
  The three edges of a face with their direction, in the order of the winding; a tool of
  the proofs below.
\<close>

fun dedges :: "face \<Rightarrow> (nat \<times> nat) list" where
  "dedges (f0, f1, f2) = [(f0, f1), (f1, f2), (f2, f0)]"

text \<open>
  The index of vertex \<open>j\<close> of the ring \<open>i\<close> of the sphere, rings counted from 0 as the face
  loops of \<^verbatim>\<open>create_sphere_stl\<close> count them; a tool of the proofs below.
\<close>

definition ring_vertex :: "nat \<Rightarrow> nat \<Rightarrow> nat \<Rightarrow> nat" where
  "ring_vertex Nh i j = 1 + i * Nh + j"

subsection \<open>Outward and inward normals\<close>

fun dot :: "vertex \<Rightarrow> vertex \<Rightarrow> real" where
  "dot (x1, y1, z1) (x2, y2, z2) = x1 * x2 + y1 * y2 + z1 * z2"

text \<open>
  The four solids are convex, and so are the meshes inscribed in them.  For a point \<open>c\<close> of the interior of a convex solid, the
  normal of a face points away from the interior exactly when its scalar product with the
  vector from \<open>c\<close> to a vertex of the face is positive, and into the interior exactly when
  it is negative.  A face with an index out of range has no normal.
\<close>

definition points_away_from :: "vertex \<Rightarrow> vertex list \<Rightarrow> face \<Rightarrow> bool" where
  "points_away_from c vertices f =
     (case face_vectors vertices f of Inl e \<Rightarrow> False
      | Inr t \<Rightarrow> 0 < dot (triangle_normal t) (vsub (fst t) c))"

definition points_towards :: "vertex \<Rightarrow> vertex list \<Rightarrow> face \<Rightarrow> bool" where
  "points_towards c vertices f =
     (case face_vectors vertices f of Inl e \<Rightarrow> False
      | Inr t \<Rightarrow> dot (triangle_normal t) (vsub (fst t) c) < 0)"

section \<open>Basic facts\<close>

lemma vertex_at_less: "k < length vertices \<Longrightarrow> vertex_at vertices k = Inr (vertices ! k)"
  by (simp add: vertex_at_def)

lemma face_vectors_in_range:
  assumes "face_in_range (length vertices) f"
  shows "face_vectors vertices f = Inr (vertices ! fst f, vertices ! fst (snd f), vertices ! snd (snd f))"
  using assms by (cases f) (simp add: face_in_range_def vertex_at_less)

lemma mesh_vectors_in_range:
  "\<forall>f \<in> set faces. face_in_range (length vertices) f \<Longrightarrow>
   mesh_vectors vertices faces =
     Inr (map (\<lambda>f. (vertices ! fst f, vertices ! fst (snd f), vertices ! snd (snd f))) faces)"
  by (induction faces) (simp_all add: face_vectors_in_range)

lemma save_and_return_eq:
  "\<forall>f \<in> set faces. face_in_range (length vertices) f \<Longrightarrow>
   save_and_return vertices faces = Inr (vertices, faces)"
  by (simp add: save_and_return_def mesh_vectors_in_range)

subsection \<open>The successor on a ring\<close>

lemma Suc_mod_nxt: "Suc i mod N = nxt N i"
  by (simp add: nxt_def)

lemma nxt_less: "0 < N \<Longrightarrow> nxt N i < N"
  by (simp add: nxt_def)

lemma nxt_eq: "i < N \<Longrightarrow> nxt N i = (if Suc i = N then 0 else Suc i)"
  by (simp add: nxt_def)

lemma nxt_neq: "2 \<le> N \<Longrightarrow> i < N \<Longrightarrow> nxt N i \<noteq> i"
  by (simp add: nxt_eq)

lemma nxt_inj: "i < N \<Longrightarrow> j < N \<Longrightarrow> nxt N i = nxt N j \<Longrightarrow> i = j"
  by (simp add: nxt_eq split: if_splits)

lemma nxt_nxt_neq: "3 \<le> N \<Longrightarrow> i < N \<Longrightarrow> nxt N (nxt N i) \<noteq> i"
  by (simp add: nxt_eq split: if_splits)

lemma nxt_surj: "k < N \<Longrightarrow> \<exists>i<N. nxt N i = k"
proof (cases k)
  case 0
  assume "k < N"
  then have "N - 1 < N" "nxt N (N - 1) = 0" by (simp_all add: nxt_eq)
  with 0 show ?thesis by blast
next
  case (Suc j)
  assume "k < N"
  with Suc have "j < N" "nxt N j = k" by (simp_all add: nxt_eq)
  then show ?thesis by blast
qed

lemma ring_index_less: "i < M \<Longrightarrow> j < Nh \<Longrightarrow> i * Nh + j < M * (Nh::nat)"
proof -
  assume "i < M" "j < Nh"
  then have "i * Nh + j < Suc i * Nh" "Suc i \<le> M" by simp_all
  then show ?thesis using mult_le_mono1 [of "Suc i" M Nh] by linarith
qed

subsection \<open>The faces of each generator, their number and their indices\<close>

lemma in_set_map_upt: "f \<in> set (map g [0..<n]) \<longleftrightarrow> (\<exists>i<n. f = g i)"
  by auto

lemma in_set_concat_map_upt: "f \<in> set (concat (map g [0..<n])) \<longleftrightarrow> (\<exists>i<n. f \<in> set (g i))"
  by auto

lemma in_set_sphere_faces:
  "f \<in> set (sphere_faces L Nv Nh) \<longleftrightarrow>
     (\<exists>j<Nh. f = (0, 1 + nxt Nh j, 1 + j))
     \<or> (\<exists>i<Nv - 2. \<exists>j<Nh.
          f = (1 + i * Nh + j, 1 + i * Nh + nxt Nh j, 1 + (i + 1) * Nh + nxt Nh j)
          \<or> f = (1 + i * Nh + j, 1 + (i + 1) * Nh + nxt Nh j, 1 + (i + 1) * Nh + j))
     \<or> (\<exists>j<Nh. f = (1 + (Nv - 2) * Nh + j, 1 + (Nv - 2) * Nh + nxt Nh j, L - 1))"
  apply (simp only: sphere_faces_def Let_def set_append Un_iff in_set_concat_map_upt in_set_map_upt nxt_def)
  apply simp
  done

lemma in_set_cylinder_faces:
  "f \<in> set (cylinder_faces N) \<longleftrightarrow>
     (\<exists>i<N. f = (0, 2 + nxt N i, 2 + i))
     \<or> (\<exists>i<N. f = (1, 2 + N + i, 2 + N + nxt N i))
     \<or> (\<exists>i<N. f = (2 + i, 2 + nxt N i, 2 + N + nxt N i) \<or> f = (2 + i, 2 + N + nxt N i, 2 + N + i))"
  apply (simp only: cylinder_faces_def Let_def set_append Un_iff in_set_concat_map_upt in_set_map_upt nxt_def)
  apply simp
  done

lemma sphere_faces_in_range:
  assumes "0 < Nh" "2 \<le> Nv" "f \<in> set (sphere_faces (2 + (Nv - 1) * Nh) Nv Nh)"
  shows "face_in_range (2 + (Nv - 1) * Nh) f"
proof -
  obtain K where K: "Nv = K + 2"
    using assms(2) by (metis add.commute le_Suc_ex)
  have n: "nxt Nh j < Nh" for j using assms(1) by (rule nxt_less)
  have r: "i * Nh + j < K * Nh" if "i < K" "j < Nh" for i j
    using that by (rule ring_index_less)
  from assms(3) [unfolded in_set_sphere_faces] show ?thesis
    unfolding K
  proof (elim disjE exE conjE)
    fix j assume "j < Nh" "f = (0, 1 + nxt Nh j, 1 + j)"
    then show "face_in_range (2 + (K + 2 - 1) * Nh) f"
      using n [of j] by (simp add: face_in_range_def)
  next
    fix i j assume "i < K + 2 - 2" "j < Nh"
      "f = (1 + i * Nh + j, 1 + i * Nh + nxt Nh j, 1 + (i + 1) * Nh + nxt Nh j)"
    then show "face_in_range (2 + (K + 2 - 1) * Nh) f"
      using r [of i j] r [of i "nxt Nh j"] n [of j]
      by (simp add: face_in_range_def)
  next
    fix i j assume "i < K + 2 - 2" "j < Nh"
      "f = (1 + i * Nh + j, 1 + (i + 1) * Nh + nxt Nh j, 1 + (i + 1) * Nh + j)"
    then show "face_in_range (2 + (K + 2 - 1) * Nh) f"
      using r [of i j] r [of i "nxt Nh j"] n [of j]
      by (simp add: face_in_range_def)
  next
    fix j assume "j < Nh"
      "f = (1 + (K + 2 - 2) * Nh + j, 1 + (K + 2 - 2) * Nh + nxt Nh j, 2 + (K + 2 - 1) * Nh - 1)"
    then show "face_in_range (2 + (K + 2 - 1) * Nh) f"
      using n [of j] by (simp add: face_in_range_def)
  qed
qed

lemma frustum_faces_eq: "frustum_faces N = cylinder_faces N"
  by (simp add: cylinder_faces_def frustum_faces_def)

lemma in_set_cone_faces:
  "f \<in> set (cone_faces N) \<longleftrightarrow>
     (\<exists>i<N. f = (0, 2 + nxt N i, 2 + i)) \<or> (\<exists>i<N. f = (2 + i, 2 + nxt N i, 1))"
  unfolding cone_faces_def Let_def set_append Un_iff in_set_map_upt nxt_def
  by simp

lemma length_concat_const:
  "(\<And>x. x \<in> set xs \<Longrightarrow> length (f x) = k) \<Longrightarrow> length (concat (map f xs)) = length xs * k"
  by (induction xs) auto

lemma length_cylinder_vertices: "length (cylinder_vertices r h N) = 2 + 2 * N"
  by (simp add: cylinder_vertices_def)

lemma length_cylinder_faces: "length (cylinder_faces N) = 4 * N"
  by (simp add: cylinder_faces_def length_concat_const [where k = 2] Let_def)

lemma length_cone_vertices: "length (cone_vertices r h N) = 2 + N"
  by (simp add: cone_vertices_def)

lemma length_cone_faces: "length (cone_faces N) = 2 * N"
  by (simp add: cone_faces_def)

lemma length_frustum_vertices: "length (frustum_vertices rb rt h N) = 2 + 2 * N"
  by (simp add: frustum_vertices_def)

lemma length_sphere_vertices: "length (sphere_vertices r Nv Nh) = 2 + (Nv - 1) * Nh"
  by (simp add: sphere_vertices_def length_concat_const [where k = Nh] Let_def)

lemma length_sphere_faces: "length (sphere_faces L Nv Nh) = 2 * Nh + 2 * Nh * (Nv - 2)"
  by (simp add: sphere_faces_def length_concat_const [where k = 2]
      length_concat_const [where k = "2 * Nh"] Let_def)

lemma cylinder_faces_in_range:
  assumes "0 < N" "f \<in> set (cylinder_faces N)"
  shows "face_in_range (2 + 2 * N) f"
proof -
  have n: "nxt N i < N" for i using assms(1) by (rule nxt_less)
  from assms(2) [unfolded in_set_cylinder_faces] show ?thesis
  proof (elim disjE exE conjE)
    fix i assume "i < N" "f = (0, 2 + nxt N i, 2 + i)"
    then show ?thesis using n [of i] by (simp add: face_in_range_def)
  next
    fix i assume "i < N" "f = (1, 2 + N + i, 2 + N + nxt N i)"
    then show ?thesis using n [of i] by (simp add: face_in_range_def)
  next
    fix i assume "i < N" "f = (2 + i, 2 + nxt N i, 2 + N + nxt N i)"
    then show ?thesis using n [of i] by (simp add: face_in_range_def)
  next
    fix i assume "i < N" "f = (2 + i, 2 + N + nxt N i, 2 + N + i)"
    then show ?thesis using n [of i] by (simp add: face_in_range_def)
  qed
qed

lemma cone_faces_in_range:
  assumes "0 < N" "f \<in> set (cone_faces N)"
  shows "face_in_range (2 + N) f"
proof -
  have n: "nxt N i < N" for i using assms(1) by (rule nxt_less)
  from assms(2) [unfolded in_set_cone_faces] show ?thesis
  proof (elim disjE exE conjE)
    fix i assume "i < N" "f = (0, 2 + nxt N i, 2 + i)"
    then show ?thesis using n [of i] by (simp add: face_in_range_def)
  next
    fix i assume "i < N" "f = (2 + i, 2 + nxt N i, 1)"
    then show ?thesis using n [of i] by (simp add: face_in_range_def)
  qed
qed

subsection \<open>Every generator returns its two lists\<close>

lemma clamp_pos: "0 < nat (max 3 n)" and clamp_ge3: "3 \<le> nat (max 3 n)"
  by simp_all

lemma create_cylinder_stl_eq:
  "create_cylinder_stl r h n =
     Inr (cylinder_vertices r h (nat (max 3 n)), cylinder_faces (nat (max 3 n)))"
  unfolding create_cylinder_stl_def Let_def
proof (rule save_and_return_eq)
  show "\<forall>f\<in>set (cylinder_faces (nat (max 3 n))).
          face_in_range (length (cylinder_vertices r h (nat (max 3 n)))) f"
    unfolding length_cylinder_vertices
    using cylinder_faces_in_range [OF clamp_pos] by blast
qed

lemma create_cone_stl_eq:
  "create_cone_stl r h n = Inr (cone_vertices r h (nat (max 3 n)), cone_faces (nat (max 3 n)))"
  unfolding create_cone_stl_def Let_def
proof (rule save_and_return_eq)
  show "\<forall>f\<in>set (cone_faces (nat (max 3 n))).
          face_in_range (length (cone_vertices r h (nat (max 3 n)))) f"
    unfolding length_cone_vertices
    using cone_faces_in_range [OF clamp_pos] by blast
qed

lemma create_cone_with_top_stl_eq:
  "create_cone_with_top_stl rb rt h n =
     Inr (frustum_vertices rb rt h (nat (max 3 n)), frustum_faces (nat (max 3 n)))"
  unfolding create_cone_with_top_stl_def Let_def
proof (rule save_and_return_eq)
  show "\<forall>f\<in>set (frustum_faces (nat (max 3 n))).
          face_in_range (length (frustum_vertices rb rt h (nat (max 3 n)))) f"
    unfolding length_frustum_vertices frustum_faces_eq
    using cylinder_faces_in_range [OF clamp_pos] by blast
qed

lemma create_sphere_stl_eq:
  "create_sphere_stl r nv nh =
     Inr (sphere_vertices r (nat (max 3 nv)) (nat (max 3 nh)),
          sphere_faces (2 + (nat (max 3 nv) - 1) * nat (max 3 nh)) (nat (max 3 nv)) (nat (max 3 nh)))"
  unfolding create_sphere_stl_def Let_def length_sphere_vertices
proof (rule save_and_return_eq)
  have "2 \<le> nat (max 3 nv)" by simp
  then show "\<forall>f\<in>set (sphere_faces (2 + (nat (max 3 nv) - 1) * nat (max 3 nh))
                       (nat (max 3 nv)) (nat (max 3 nh))).
          face_in_range (length (sphere_vertices r (nat (max 3 nv)) (nat (max 3 nh)))) f"
    unfolding length_sphere_vertices
    using sphere_faces_in_range [OF clamp_pos] by blast
qed

section \<open>Counts, clamp, index range, degenerate faces\<close>

lemma returns_Inr: "returns (Inr m) P = P m"
  by (simp add: returns_def)

lemma cylinder_faces_4:
  "cylinder_faces 4 = [(0, 3, 2), (0, 4, 3), (0, 5, 4), (0, 2, 5),
     (1, 6, 7), (1, 7, 8), (1, 8, 9), (1, 9, 6),
     (2, 3, 7), (2, 7, 6), (3, 4, 8), (3, 8, 7), (4, 5, 9), (4, 9, 8), (5, 2, 6), (5, 6, 9)]"
  by code_simp

lemma cone_faces_3:
  "cone_faces 3 = [(0, 3, 2), (0, 4, 3), (0, 2, 4), (2, 3, 1), (3, 4, 1), (4, 2, 1)]"
  by code_simp

lemma sphere_faces_3_4:
  "sphere_faces 10 3 4 = [(0, 2, 1), (0, 3, 2), (0, 4, 3), (0, 1, 4),
     (1, 2, 6), (1, 6, 5), (2, 3, 7), (2, 7, 6), (3, 4, 8), (3, 8, 7), (4, 1, 5), (4, 5, 8),
     (5, 6, 9), (6, 7, 9), (7, 8, 9), (8, 5, 9)]"
  by code_simp

text \<open>
  C3.  Whatever the arguments, with \<open>N\<close> the segment count after the clamp, the cylinder
  and the frustum return \<open>2 + 2N\<close> vertices and \<open>4N\<close> faces, the cone \<open>2 + N\<close> vertices and
  \<open>2N\<close> faces, and the sphere \<open>2 + (Nv - 1) Nh\<close> vertices and \<open>2 Nh + 2 Nh (Nv - 2)\<close> faces.
\<close>

theorem vertex_and_face_counts:
  "returns (create_cylinder_stl radius height n)
     (\<lambda>m. length (fst m) = 2 + 2 * nat (max 3 n) \<and> length (snd m) = 4 * nat (max 3 n))
   \<and> returns (create_cone_stl radius height n)
     (\<lambda>m. length (fst m) = 2 + nat (max 3 n) \<and> length (snd m) = 2 * nat (max 3 n))
   \<and> returns (create_cone_with_top_stl bottom_radius top_radius height n)
     (\<lambda>m. length (fst m) = 2 + 2 * nat (max 3 n) \<and> length (snd m) = 4 * nat (max 3 n))
   \<and> returns (create_sphere_stl radius nv nh)
     (\<lambda>m. length (fst m) = 2 + (nat (max 3 nv) - 1) * nat (max 3 nh)
        \<and> length (snd m) = 2 * nat (max 3 nh) + 2 * nat (max 3 nh) * (nat (max 3 nv) - 2))"
  unfolding create_cylinder_stl_eq create_cone_stl_eq create_cone_with_top_stl_eq
    create_sphere_stl_eq returns_Inr fst_conv snd_conv frustum_faces_eq
    length_cylinder_vertices length_cylinder_faces length_cone_vertices length_cone_faces
    length_frustum_vertices length_sphere_vertices length_sphere_faces
  by simp

theorem vertex_and_face_counts_witness:
  "returns (create_cylinder_stl 1 2 4) (\<lambda>m. length (fst m) = 10 \<and> length (snd m) = 16)
   \<and> returns (create_cone_stl 1 1 3) (\<lambda>m. length (fst m) = 5 \<and> length (snd m) = 6)
   \<and> returns (create_cone_with_top_stl 1 (1/2) 1 3) (\<lambda>m. length (fst m) = 8 \<and> length (snd m) = 12)
   \<and> returns (create_sphere_stl 1 3 4) (\<lambda>m. length (fst m) = 10 \<and> length (snd m) = 16)"
  using vertex_and_face_counts [where radius = 1 and height = 2 and n = 4 and nv = 3 and nh = 4]
    vertex_and_face_counts [where radius = 1 and height = 1 and n = 3 and bottom_radius = 1
      and top_radius = "1/2"]
  by simp

text \<open>
  C6.  A segment count below 3 gives the result of segment count 3: the same vertex list
  and the same face list, and the call returns (no error).  For the sphere this holds for
  each of its two segment counts, alone and together.
\<close>

theorem segment_clamp:
  assumes "n < 3" and "k < 3"
  shows "create_cylinder_stl radius height n = create_cylinder_stl radius height 3
    \<and> create_cone_stl radius height n = create_cone_stl radius height 3
    \<and> create_cone_with_top_stl bottom_radius top_radius height n
        = create_cone_with_top_stl bottom_radius top_radius height 3
    \<and> create_sphere_stl radius n nh = create_sphere_stl radius 3 nh
    \<and> create_sphere_stl radius nv k = create_sphere_stl radius nv 3
    \<and> create_sphere_stl radius n k = create_sphere_stl radius 3 3
    \<and> returns (create_cylinder_stl radius height n) (\<lambda>m. True)
    \<and> returns (create_cone_stl radius height n) (\<lambda>m. True)
    \<and> returns (create_cone_with_top_stl bottom_radius top_radius height n) (\<lambda>m. True)
    \<and> returns (create_sphere_stl radius n k) (\<lambda>m. True)"
proof -
  have "max 3 n = 3" "max 3 k = 3" using assms by simp_all
  then have "create_cylinder_stl radius height n = create_cylinder_stl radius height 3"
    "create_cone_stl radius height n = create_cone_stl radius height 3"
    "create_cone_with_top_stl bottom_radius top_radius height n
        = create_cone_with_top_stl bottom_radius top_radius height 3"
    "create_sphere_stl radius n nh = create_sphere_stl radius 3 nh"
    "create_sphere_stl radius nv k = create_sphere_stl radius nv 3"
    "create_sphere_stl radius n k = create_sphere_stl radius 3 3"
    by (simp_all add: create_cylinder_stl_def create_cone_stl_def create_cone_with_top_stl_def
        create_sphere_stl_def)
  moreover have "returns (create_cylinder_stl radius height n) (\<lambda>m. True)"
    "returns (create_cone_stl radius height n) (\<lambda>m. True)"
    "returns (create_cone_with_top_stl bottom_radius top_radius height n) (\<lambda>m. True)"
    "returns (create_sphere_stl radius n k) (\<lambda>m. True)"
    by (simp_all add: create_cylinder_stl_eq create_cone_stl_eq create_cone_with_top_stl_eq
        create_sphere_stl_eq returns_Inr)
  ultimately show ?thesis by simp
qed

theorem segment_clamp_witness:
  "(1::int) < 3 \<and> (2::int) < 3
    \<and> create_cylinder_stl 1 2 1 = create_cylinder_stl 1 2 3
    \<and> create_cylinder_stl 1 2 2 = create_cylinder_stl 1 2 3
    \<and> create_cone_stl 1 2 1 = create_cone_stl 1 2 3
    \<and> create_cone_stl 1 2 2 = create_cone_stl 1 2 3
    \<and> create_cone_with_top_stl 1 (1/2) 2 1 = create_cone_with_top_stl 1 (1/2) 2 3
    \<and> create_cone_with_top_stl 1 (1/2) 2 2 = create_cone_with_top_stl 1 (1/2) 2 3
    \<and> create_sphere_stl 1 1 2 = create_sphere_stl 1 3 3
    \<and> create_sphere_stl 1 2 1 = create_sphere_stl 1 3 3
    \<and> returns (create_cylinder_stl 1 2 1) (\<lambda>m. length (snd m) = 12)"
proof -
  have a: "(1::int) < 3" and b: "(2::int) < 3" by simp_all
  show ?thesis
    using a b
      segment_clamp [OF a b, where radius = 1 and height = 2 and bottom_radius = 1
        and top_radius = "1/2"]
      segment_clamp [OF b a, where radius = 1 and height = 2 and bottom_radius = 1
        and top_radius = "1/2"]
    by (simp add: create_cylinder_stl_eq [of _ _ 3] returns_Inr length_cylinder_faces)
qed

lemma cylinder_faces_distinct:
  assumes "2 \<le> N" "f \<in> set (cylinder_faces N)"
  shows "face_distinct f"
proof -
  have n: "nxt N i \<noteq> i" if "i < N" for i using assms(1) that by (rule nxt_neq)
  have l: "nxt N i < N" for i using assms(1) by (simp add: nxt_less)
  from assms(2) [unfolded in_set_cylinder_faces] show ?thesis
  proof (elim disjE exE conjE)
    fix i assume "i < N" "f = (0, 2 + nxt N i, 2 + i)"
    then show ?thesis using n [of i] by (simp add: face_distinct_def)
  next
    fix i assume "i < N" "f = (1, 2 + N + i, 2 + N + nxt N i)"
    then show ?thesis using n [of i] by (simp add: face_distinct_def)
  next
    fix i assume "i < N" "f = (2 + i, 2 + nxt N i, 2 + N + nxt N i)"
    then show ?thesis using n [of i] l [of i] by (simp add: face_distinct_def)
  next
    fix i assume "i < N" "f = (2 + i, 2 + N + nxt N i, 2 + N + i)"
    then show ?thesis using n [of i] l [of i] by (simp add: face_distinct_def)
  qed
qed

lemma cone_faces_distinct:
  assumes "2 \<le> N" "f \<in> set (cone_faces N)"
  shows "face_distinct f"
proof -
  have n: "nxt N i \<noteq> i" if "i < N" for i using assms(1) that by (rule nxt_neq)
  from assms(2) [unfolded in_set_cone_faces] show ?thesis
  proof (elim disjE exE conjE)
    fix i assume "i < N" "f = (0, 2 + nxt N i, 2 + i)"
    then show ?thesis using n [of i] by (simp add: face_distinct_def)
  next
    fix i assume "i < N" "f = (2 + i, 2 + nxt N i, 1)"
    then show ?thesis using n [of i] by (simp add: face_distinct_def)
  qed
qed

lemma sphere_faces_distinct:
  assumes "2 \<le> Nh" "2 \<le> Nv" "f \<in> set (sphere_faces (2 + (Nv - 1) * Nh) Nv Nh)"
  shows "face_distinct f"
proof -
  obtain K where K: "Nv = K + 2"
    using assms(2) by (metis add.commute le_Suc_ex)
  have n: "nxt Nh j \<noteq> j" if "j < Nh" for j using assms(1) that by (rule nxt_neq)
  have l: "nxt Nh j < Nh" for j using assms(1) by (simp add: nxt_less)
  from assms(3) [unfolded in_set_sphere_faces] show ?thesis
    unfolding K
  proof (elim disjE exE conjE)
    fix j assume "j < Nh" "f = (0, 1 + nxt Nh j, 1 + j)"
    then show ?thesis using n [of j] by (simp add: face_distinct_def)
  next
    fix i j assume "i < K + 2 - 2" "j < Nh"
      "f = (1 + i * Nh + j, 1 + i * Nh + nxt Nh j, 1 + (i + 1) * Nh + nxt Nh j)"
    then show ?thesis using n [of j] l [of j] by (simp add: face_distinct_def)
  next
    fix i j assume "i < K + 2 - 2" "j < Nh"
      "f = (1 + i * Nh + j, 1 + (i + 1) * Nh + nxt Nh j, 1 + (i + 1) * Nh + j)"
    then show ?thesis using n [of j] l [of j] by (simp add: face_distinct_def)
  next
    fix j assume "j < Nh"
      "f = (1 + (K + 2 - 2) * Nh + j, 1 + (K + 2 - 2) * Nh + nxt Nh j, 2 + (K + 2 - 1) * Nh - 1)"
    then show ?thesis using n [of j] l [of j] by (simp add: face_distinct_def)
  qed
qed

lemma mesh_vectors_returns:
  "indices_in_range (vs, fs) \<Longrightarrow> \<exists>ts. mesh_vectors vs fs = Inr ts"
  by (simp add: indices_in_range_def mesh_vectors_in_range)

text \<open>
  C8.  Every generator returns, and every index of every returned face is below the
  number of returned vertices; so the loop that copies the vertices of the faces into the
  mesh finds every vertex it looks up.
\<close>

theorem face_indices_in_range:
  "returns (create_cylinder_stl radius height n)
     (\<lambda>m. indices_in_range m \<and> (\<exists>ts. mesh_vectors (fst m) (snd m) = Inr ts))
   \<and> returns (create_sphere_stl radius nv nh)
     (\<lambda>m. indices_in_range m \<and> (\<exists>ts. mesh_vectors (fst m) (snd m) = Inr ts))
   \<and> returns (create_cone_stl radius height n)
     (\<lambda>m. indices_in_range m \<and> (\<exists>ts. mesh_vectors (fst m) (snd m) = Inr ts))
   \<and> returns (create_cone_with_top_stl bottom_radius top_radius height n)
     (\<lambda>m. indices_in_range m \<and> (\<exists>ts. mesh_vectors (fst m) (snd m) = Inr ts))"
proof -
  have "indices_in_range (cylinder_vertices radius height (nat (max 3 n)),
          cylinder_faces (nat (max 3 n)))"
    unfolding indices_in_range_def fst_conv snd_conv length_cylinder_vertices
    using cylinder_faces_in_range [OF clamp_pos] by blast
  moreover have "indices_in_range (cone_vertices radius height (nat (max 3 n)),
          cone_faces (nat (max 3 n)))"
    unfolding indices_in_range_def fst_conv snd_conv length_cone_vertices
    using cone_faces_in_range [OF clamp_pos] by blast
  moreover have "indices_in_range (frustum_vertices bottom_radius top_radius height (nat (max 3 n)),
          frustum_faces (nat (max 3 n)))"
    unfolding indices_in_range_def fst_conv snd_conv length_frustum_vertices frustum_faces_eq
    using cylinder_faces_in_range [OF clamp_pos] by blast
  moreover have "2 \<le> nat (max 3 nv)" by simp
  then have "indices_in_range (sphere_vertices radius (nat (max 3 nv)) (nat (max 3 nh)),
          sphere_faces (2 + (nat (max 3 nv) - 1) * nat (max 3 nh)) (nat (max 3 nv)) (nat (max 3 nh)))"
    unfolding indices_in_range_def fst_conv snd_conv length_sphere_vertices
    using sphere_faces_in_range [OF clamp_pos] by blast
  ultimately show ?thesis
    unfolding create_cylinder_stl_eq create_cone_stl_eq create_cone_with_top_stl_eq
      create_sphere_stl_eq returns_Inr fst_conv snd_conv
    using mesh_vectors_returns by blast
qed

theorem face_indices_in_range_witness:
  "returns (create_cylinder_stl 1 2 4)
     (\<lambda>m. (5, 6, 9) \<in> set (snd m) \<and> face_in_range (length (fst m)) (5, 6, 9))
   \<and> returns (create_sphere_stl 1 3 4)
     (\<lambda>m. (8, 5, 9) \<in> set (snd m) \<and> face_in_range (length (fst m)) (8, 5, 9))
   \<and> returns (create_cone_stl 1 1 3)
     (\<lambda>m. (4, 2, 1) \<in> set (snd m) \<and> face_in_range (length (fst m)) (4, 2, 1))
   \<and> returns (create_cone_with_top_stl 1 (1/2) 1 4)
     (\<lambda>m. (5, 6, 9) \<in> set (snd m) \<and> face_in_range (length (fst m)) (5, 6, 9))"
  using face_indices_in_range [where radius = 1 and height = 2 and n = 4 and nv = 3 and nh = 4
      and bottom_radius = 1 and top_radius = "1/2"]
    face_indices_in_range [where radius = 1 and height = 1 and n = 3 and nv = 3 and nh = 4
      and bottom_radius = 1 and top_radius = "1/2"]
    face_indices_in_range [where radius = 1 and height = 1 and n = 4 and nv = 3 and nh = 4
      and bottom_radius = 1 and top_radius = "1/2"]
  by (simp add: create_cylinder_stl_eq create_cone_stl_eq create_cone_with_top_stl_eq
      create_sphere_stl_eq returns_Inr indices_in_range_def frustum_faces_eq
      cylinder_faces_4 cone_faces_3 sphere_faces_3_4 length_cylinder_vertices)

text \<open>
  C10.  Every generator returns, and every returned face has three pairwise different
  vertex indices.
\<close>

theorem faces_not_degenerate:
  "returns (create_cylinder_stl radius height n) no_degenerate_face
   \<and> returns (create_sphere_stl radius nv nh) no_degenerate_face
   \<and> returns (create_cone_stl radius height n) no_degenerate_face
   \<and> returns (create_cone_with_top_stl bottom_radius top_radius height n) no_degenerate_face"
proof -
  have 2: "2 \<le> nat (max 3 k)" for k by simp
  show ?thesis
    unfolding create_cylinder_stl_eq create_cone_stl_eq create_cone_with_top_stl_eq
      create_sphere_stl_eq returns_Inr no_degenerate_face_def snd_conv frustum_faces_eq
    using cylinder_faces_distinct [OF 2] cone_faces_distinct [OF 2]
      sphere_faces_distinct [OF 2 2]
    by blast
qed

theorem faces_not_degenerate_witness:
  "returns (create_cylinder_stl 1 2 4) (\<lambda>m. (5, 6, 9) \<in> set (snd m) \<and> face_distinct (5, 6, 9))
   \<and> returns (create_sphere_stl 1 3 4) (\<lambda>m. (8, 5, 9) \<in> set (snd m) \<and> face_distinct (8, 5, 9))
   \<and> returns (create_cone_stl 1 1 3) (\<lambda>m. (4, 2, 1) \<in> set (snd m) \<and> face_distinct (4, 2, 1))
   \<and> returns (create_cone_with_top_stl 1 (1/2) 1 4)
       (\<lambda>m. (5, 6, 9) \<in> set (snd m) \<and> face_distinct (5, 6, 9))"
  using faces_not_degenerate [where radius = 1 and height = 2 and n = 4 and nv = 3 and nh = 4
      and bottom_radius = 1 and top_radius = "1/2"]
    faces_not_degenerate [where radius = 1 and height = 1 and n = 3 and nv = 3 and nh = 4
      and bottom_radius = 1 and top_radius = "1/2"]
    faces_not_degenerate [where radius = 1 and height = 1 and n = 4 and nv = 3 and nh = 4
      and bottom_radius = 1 and top_radius = "1/2"]
  by (simp add: create_cylinder_stl_eq create_cone_stl_eq create_cone_with_top_stl_eq
      create_sphere_stl_eq returns_Inr no_degenerate_face_def frustum_faces_eq
      cylinder_faces_4 cone_faces_3 sphere_faces_3_4)

section \<open>Frustum and cylinder; the vertices and the construction of the sphere\<close>

lemma frustum_vertices_equal_radii:
  "frustum_vertices r r h N = map (translate (0, 0, h / 2)) (cylinder_vertices r h N)"
  by (simp add: frustum_vertices_def cylinder_vertices_def Let_def)

text \<open>
  C7.  With equal radii the frustum generator returns the face list of the cylinder
  generator (same radius, height and segment count) and the cylinder's vertex list moved
  by \<open>(0, 0, h/2)\<close>.
\<close>

theorem frustum_equal_radii_is_cylinder:
  "returns (create_cylinder_stl r h n)
     (\<lambda>c. create_cone_with_top_stl r r h n = Inr (map (translate (0, 0, h / 2)) (fst c), snd c))"
  by (simp add: create_cylinder_stl_eq create_cone_with_top_stl_eq returns_Inr
      frustum_vertices_equal_radii frustum_faces_eq)

lemma in_set_sphere_vertices:
  "v \<in> set (sphere_vertices r Nv Nh) \<Longrightarrow>
     v = (0, 0, r) \<or> v = (0, 0, - r)
     \<or> (\<exists>t p. v = (r * sin t * cos p, r * sin t * sin p, r * cos t))"
  by (auto simp: sphere_vertices_def Let_def)

lemma norm3_sphere_point:
  "norm3 (r * sin t * cos p, r * sin t * sin p, r * cos t) = \<bar>r\<bar>"
proof -
  have p: "(cos p)\<^sup>2 + (sin p)\<^sup>2 = 1" and t: "(sin t)\<^sup>2 + (cos t)\<^sup>2 = 1"
    by simp_all
  have "(r * sin t * cos p)\<^sup>2 + (r * sin t * sin p)\<^sup>2 + (r * cos t)\<^sup>2 = r\<^sup>2"
    using p t by algebra
  then show ?thesis by simp
qed

text \<open>
  C9.  Every vertex the sphere generator returns is at distance \<open>\<bar>radius\<bar>\<close> from the
  origin.
\<close>

theorem sphere_vertices_on_sphere:
  "returns (create_sphere_stl radius nv nh) (\<lambda>m. \<forall>v \<in> set (fst m). norm3 v = \<bar>radius\<bar>)"
  unfolding create_sphere_stl_eq returns_Inr fst_conv
proof
  fix v assume "v \<in> set (sphere_vertices radius (nat (max 3 nv)) (nat (max 3 nh)))"
  then consider "v = (0, 0, radius)" | "v = (0, 0, - radius)"
    | t p where "v = (radius * sin t * cos p, radius * sin t * sin p, radius * cos t)"
    using in_set_sphere_vertices by blast
  then show "norm3 v = \<bar>radius\<bar>"
    by cases (simp_all add: norm3_sphere_point del: norm3.simps, simp_all)
qed

theorem sphere_vertices_on_sphere_witness:
  "returns (create_sphere_stl 2 3 4)
     (\<lambda>m. (0, 0, 2) \<in> set (fst m) \<and> norm3 (0, 0, 2) = \<bar>2\<bar>
        \<and> (0, 0, - 2) \<in> set (fst m) \<and> norm3 (0, 0, - 2) = \<bar>2\<bar>)"
  using sphere_vertices_on_sphere [of 2 3 4]
  by (simp add: create_sphere_stl_eq returns_Inr sphere_vertices_def del: norm3.simps)

lemma map_upt_from_1: "map f [Suc 0..<Suc n] = map (\<lambda>i. f (Suc i)) [0..<n]"
  by (simp add: map_Suc_upt [symmetric] del: upt_Suc)

lemma spec_sphere_vertices_eq: "sphere_vertices r Nv Nh = spec_sphere_vertices r Nv Nh"
  by (simp add: sphere_vertices_def spec_sphere_vertices_def spec_ring_point_def [abs_def] Let_def)

lemma spec_sphere_faces_eq:
  assumes "2 \<le> Nv"
  shows "sphere_faces (2 + (Nv - 1) * Nh) Nv Nh = spec_sphere_faces Nv Nh"
proof -
  obtain K where K: "Nv = Suc (Suc K)"
    using assms by (metis add_2_eq_Suc le_Suc_ex)
  show ?thesis
    by (simp add: K sphere_faces_def spec_sphere_faces_def spec_ring_def Let_def nxt_def
        map_upt_from_1 del: upt_Suc)
qed

text \<open>
  C4.  The sphere generator returns exactly the vertex list and the face list of the
  construction of section 4.3: north pole, the rings of the latitude bands \<open>1 \<le> i < Nv\<close>,
  south pole; north fan, the two triangles of every quad of every pair of adjacent rings,
  south fan, in this order.
\<close>

theorem sphere_is_spec_construction:
  "create_sphere_stl radius nv nh =
     Inr (spec_sphere_vertices radius (nat (max 3 nv)) (nat (max 3 nh)),
          spec_sphere_faces (nat (max 3 nv)) (nat (max 3 nh)))"
proof -
  have "2 \<le> nat (max 3 nv)" by simp
  then show ?thesis
    unfolding create_sphere_stl_eq by (simp only: spec_sphere_vertices_eq spec_sphere_faces_eq)
qed

section \<open>The normals of the caps of the cylinder\<close>

lemma sin_segment_pos:
  assumes "3 \<le> N"
  shows "0 < sin (2 * pi / real N)"
proof (rule sin_gt_zero)
  show "0 < 2 * pi / real N" using assms by simp
  have "2 * pi < pi * real N"
    using assms by (simp add: mult.commute)
  then show "2 * pi / real N < pi"
    using assms by (simp add: field_simps)
qed

lemma sin_ring_step:
  assumes "i < N"
  shows "sin (2 * pi * real i / real N - 2 * pi * real (nxt N i) / real N)
           = - sin (2 * pi / real N)"
proof (cases "Suc i = N")
  case True
  have "2 * pi * real i / real (Suc i) = - (2 * pi / real (Suc i)) + 2 * pi"
    by (simp add: field_simps)
  then have "2 * pi * real i / real N = - (2 * pi / real N) + 2 * pi"
    unfolding True .
  moreover have "nxt N i = 0" using True assms by (simp add: nxt_eq)
  ultimately show ?thesis by (simp only: sin_periodic sin_minus, simp)
next
  case False
  then have "nxt N i = Suc i" using assms by (simp add: nxt_eq)
  moreover have "2 * pi * real i / real N - 2 * pi * real (Suc i) / real N = - (2 * pi / real N)"
    using assms by (simp add: field_simps)
  ultimately show ?thesis by (simp only: sin_minus)
qed

lemma ring_cross_z:
  assumes "i < N"
  shows "cos (2 * pi * real (nxt N i) / real N) * sin (2 * pi * real i / real N)
         - sin (2 * pi * real (nxt N i) / real N) * cos (2 * pi * real i / real N)
         = - sin (2 * pi / real N)"
  using sin_ring_step [OF assms] by (simp add: sin_diff mult.commute)

lemma nth_cylinder_faces_bottom:
  "i < N \<Longrightarrow> cylinder_faces N ! i = (0, 2 + nxt N i, 2 + i)"
  by (simp add: cylinder_faces_def nth_append nxt_def)

lemma nth_cylinder_faces_top:
  "i < N \<Longrightarrow> cylinder_faces N ! (N + i) = (1, 2 + N + i, 2 + N + nxt N i)"
  by (simp add: cylinder_faces_def nth_append nxt_def)

lemma nth_cylinder_vertices:
  "cylinder_vertices r h N ! 0 = (0, 0, - h / 2)"
  "cylinder_vertices r h N ! 1 = (0, 0, h / 2)"
  "k < N \<Longrightarrow> cylinder_vertices r h N ! (2 + k)
     = (r * cos (2 * pi * real k / real N), r * sin (2 * pi * real k / real N), - h / 2)"
  "k < N \<Longrightarrow> cylinder_vertices r h N ! (2 + N + k)
     = (r * cos (2 * pi * real k / real N), r * sin (2 * pi * real k / real N), h / 2)"
  by (simp_all add: cylinder_vertices_def nth_append Let_def)

lemma face_normal_in_range:
  assumes "f0 < length vs" "f1 < length vs" "f2 < length vs"
  shows "face_normal vs (f0, f1, f2) = Inr (triangle_normal (vs ! f0, vs ! f1, vs ! f2))"
  using assms by (simp add: face_normal_def vertex_at_less)

lemma flat_triangle_normal:
  assumes "0 < c" "x1 * y2 - y1 * x2 = c"
  shows "triangle_normal ((0, 0, z), (x1, y1, z), (x2, y2, z)) = (0, 0, 1)"
  using assms by simp

lemma flat_triangle_normal_neg:
  assumes "0 < c" "x1 * y2 - y1 * x2 = - c"
  shows "triangle_normal ((0, 0, z), (x1, y1, z), (x2, y2, z)) = (0, 0, - 1)"
  using assms by simp

lemma cylinder_bottom_cap_normal:
  assumes "0 < r" "3 \<le> N" "i < N"
  shows "face_normal (cylinder_vertices r h N) (cylinder_faces N ! i) = Inr (0, 0, - 1)"
proof -
  have n: "nxt N i < N" using assms by (simp add: nxt_less)
  have c: "0 < r * r * sin (2 * pi / real N)"
    using assms sin_segment_pos [of N] by simp
  have z: "r * cos (2 * pi * real (nxt N i) / real N) * (r * sin (2 * pi * real i / real N))
      - r * sin (2 * pi * real (nxt N i) / real N) * (r * cos (2 * pi * real i / real N))
      = - (r * r * sin (2 * pi / real N))"
    using ring_cross_z [OF assms(3)] by algebra
  have "face_normal (cylinder_vertices r h N) (0, 2 + nxt N i, 2 + i)
      = Inr (triangle_normal (cylinder_vertices r h N ! 0, cylinder_vertices r h N ! (2 + nxt N i),
          cylinder_vertices r h N ! (2 + i)))"
    using assms n by (intro face_normal_in_range) (simp_all add: length_cylinder_vertices)
  then show ?thesis
    unfolding nth_cylinder_faces_bottom [OF assms(3)] nth_cylinder_vertices(1)
      nth_cylinder_vertices(3) [OF n] nth_cylinder_vertices(3) [OF assms(3)]
    using flat_triangle_normal_neg [OF c z] by simp
qed

lemma cylinder_top_cap_normal:
  assumes "0 < r" "3 \<le> N" "i < N"
  shows "face_normal (cylinder_vertices r h N) (cylinder_faces N ! (N + i)) = Inr (0, 0, 1)"
proof -
  have n: "nxt N i < N" using assms by (simp add: nxt_less)
  have c: "0 < r * r * sin (2 * pi / real N)"
    using assms sin_segment_pos [of N] by simp
  have z: "r * cos (2 * pi * real i / real N) * (r * sin (2 * pi * real (nxt N i) / real N))
      - r * sin (2 * pi * real i / real N) * (r * cos (2 * pi * real (nxt N i) / real N))
      = r * r * sin (2 * pi / real N)"
    using ring_cross_z [OF assms(3)] by algebra
  have "face_normal (cylinder_vertices r h N) (1, 2 + N + i, 2 + N + nxt N i)
      = Inr (triangle_normal (cylinder_vertices r h N ! 1, cylinder_vertices r h N ! (2 + N + i),
          cylinder_vertices r h N ! (2 + N + nxt N i)))"
    using assms n by (intro face_normal_in_range) (simp_all add: length_cylinder_vertices)
  then show ?thesis
    unfolding nth_cylinder_faces_top [OF assms(3)] nth_cylinder_vertices(2)
      nth_cylinder_vertices(4) [OF n] nth_cylinder_vertices(4) [OF assms(3)]
    using flat_triangle_normal [OF c z] by simp
qed

text \<open>
  C5.  For a positive radius (any height, any segment count), the faces of the bottom cap
  of the cylinder, the first \<open>N\<close> faces of the list, have the unit normal \<open>(0, 0, -1)\<close>, and
  the faces of the top cap, the next \<open>N\<close>, have the unit normal \<open>(0, 0, 1)\<close>; \<open>N\<close> is the
  segment count after the clamp.
\<close>

theorem cylinder_cap_normals:
  assumes "0 < radius"
  shows "returns (create_cylinder_stl radius height n)
    (\<lambda>m. \<forall>i < nat (max 3 n).
       face_normal (fst m) (snd m ! i) = Inr (0, 0, - 1)
       \<and> face_normal (fst m) (snd m ! (nat (max 3 n) + i)) = Inr (0, 0, 1))"
  unfolding create_cylinder_stl_eq returns_Inr fst_conv snd_conv
  using cylinder_bottom_cap_normal [OF assms clamp_ge3] cylinder_top_cap_normal [OF assms clamp_ge3]
  by blast

theorem cylinder_cap_normals_witness:
  "(0::real) < 1
   \<and> returns (create_cylinder_stl 1 2 4)
     (\<lambda>m. length (fst m) = 10 \<and> length (snd m) = 16
        \<and> snd m ! 0 = (0, 3, 2) \<and> face_normal (fst m) (0, 3, 2) = Inr (0, 0, - 1)
        \<and> snd m ! 3 = (0, 2, 5) \<and> face_normal (fst m) (0, 2, 5) = Inr (0, 0, - 1)
        \<and> snd m ! 4 = (1, 6, 7) \<and> face_normal (fst m) (1, 6, 7) = Inr (0, 0, 1)
        \<and> snd m ! 7 = (1, 9, 6) \<and> face_normal (fst m) (1, 9, 6) = Inr (0, 0, 1))"
proof -
  have p: "(0::real) < 1" by simp
  have "\<forall>i<4. face_normal (cylinder_vertices 1 2 4) (cylinder_faces 4 ! i) = Inr (0, 0, - 1)
       \<and> face_normal (cylinder_vertices 1 2 4) (cylinder_faces 4 ! (4 + i)) = Inr (0, 0, 1)"
    using cylinder_cap_normals [OF p, of 2 4]
    by (simp add: create_cylinder_stl_eq returns_Inr)
  then have a: "face_normal (cylinder_vertices 1 2 4) (cylinder_faces 4 ! i) = Inr (0, 0, - 1)
       \<and> face_normal (cylinder_vertices 1 2 4) (cylinder_faces 4 ! (4 + i)) = Inr (0, 0, 1)"
    if "i < 4" for i
    using that by blast
  show ?thesis
    using a [of 0] a [of 3]
    by (simp add: create_cylinder_stl_eq returns_Inr cylinder_faces_4 length_cylinder_vertices)
qed

section \<open>Closed meshes\<close>

subsection \<open>Directed edges decide closure\<close>

lemma edges_of_dedges:
  "e \<in> edges_of g \<longleftrightarrow> (\<exists>a b. (a, b) \<in> set (dedges g) \<and> e = {a, b})"
  by (cases g) auto

lemma edge_in_face_iff:
  assumes "face_distinct g"
  shows "{a, b} \<in> edges_of g \<longleftrightarrow> (a, b) \<in> set (dedges g) \<or> (b, a) \<in> set (dedges g)"
  using assms by (cases g) (auto simp: face_distinct_def doubleton_eq_iff)

lemma not_both_directions:
  assumes "face_distinct g"
  shows "\<not> ((a, b) \<in> set (dedges g) \<and> (b, a) \<in> set (dedges g))"
  using assms by (cases g) (auto simp: face_distinct_def)

lemma edge_count_split:
  assumes "\<forall>g \<in> set fs. face_distinct g"
  shows "edge_count {a, b} fs
     = length (filter (\<lambda>g. (a, b) \<in> set (dedges g)) fs)
       + length (filter (\<lambda>g. (b, a) \<in> set (dedges g)) fs)"
  using assms
proof (induction fs)
  case Nil
  show ?case by (simp add: edge_count_def)
next
  case (Cons g fs)
  then have d: "face_distinct g" and IH: "edge_count {a, b} fs
     = length (filter (\<lambda>g. (a, b) \<in> set (dedges g)) fs)
       + length (filter (\<lambda>g. (b, a) \<in> set (dedges g)) fs)"
    by simp_all
  show ?case
    using IH edge_in_face_iff [OF d, of a b] not_both_directions [OF d, of a b]
    by (auto simp: edge_count_def)
qed

lemma directed_edge_count:
  assumes "distinct (concat (map dedges fs))"
  shows "length (filter (\<lambda>g. d \<in> set (dedges g)) fs)
     = (if d \<in> set (concat (map dedges fs)) then 1 else 0)"
  using assms
proof (induction fs)
  case Nil
  show ?case by simp
next
  case (Cons g fs)
  then have IH: "length (filter (\<lambda>g. d \<in> set (dedges g)) fs)
     = (if d \<in> set (concat (map dedges fs)) then 1 else 0)"
    and disj: "set (dedges g) \<inter> set (concat (map dedges fs)) = {}"
    by simp_all
  show ?case
  proof (cases "d \<in> set (dedges g)")
    case True
    then have "d \<notin> set (concat (map dedges fs))" using disj by blast
    with True IH show ?thesis by simp
  next
    case False
    with IH show ?thesis by simp
  qed
qed

lemma closed_if_oriented:
  assumes nd: "\<forall>g \<in> set fs. face_distinct g"
    and dist: "distinct (concat (map dedges fs))"
    and sym: "\<And>a b. (a, b) \<in> set (concat (map dedges fs)) \<Longrightarrow> (b, a) \<in> set (concat (map dedges fs))"
  shows "closed_mesh (vs, fs)"
  unfolding closed_mesh_def snd_conv
proof (intro ballI)
  fix f e assume f: "f \<in> set fs" and e: "e \<in> edges_of f"
  from e obtain a b where ab: "(a, b) \<in> set (dedges f)" "e = {a, b}"
    unfolding edges_of_dedges by blast
  with f have 1: "(a, b) \<in> set (concat (map dedges fs))" by auto
  then have 2: "(b, a) \<in> set (concat (map dedges fs))" by (rule sym)
  show "edge_count e fs = 2"
    unfolding ab(2) edge_count_split [OF nd] directed_edge_count [OF dist]
    using 1 2 by simp
qed

lemma distinct_concat_map_upt:
  assumes "\<And>i. i < n \<Longrightarrow> distinct (h i)"
    and "\<And>i j. i < n \<Longrightarrow> j < n \<Longrightarrow> i \<noteq> j \<Longrightarrow> set (h i) \<inter> set (h j) = {}"
  shows "distinct (concat (map h [0..<n]))"
  using assms
proof (induction n)
  case 0
  show ?case by simp
next
  case (Suc n)
  have "distinct (concat (map h [0..<n]))"
    by (rule Suc.IH) (simp_all add: Suc.prems)
  moreover have "distinct (h n)" by (simp add: Suc.prems)
  moreover have "set (h i) \<inter> set (h n) = {}" if "i < n" for i
    using that by (intro Suc.prems) simp_all
  then have "x \<notin> set (h n)" if "i < n" "x \<in> set (h i)" for i x
    using that by blast
  then have "set (concat (map h [0..<n])) \<inter> set (h n) = {}"
    by auto
  ultimately show ?case by simp
qed

subsection \<open>The cone\<close>

lemma nxt_inj_iff: "i < N \<Longrightarrow> j < N \<Longrightarrow> nxt N i = nxt N j \<longleftrightarrow> i = j"
  using nxt_inj by blast

lemma nxt_neq': "2 \<le> N \<Longrightarrow> i < N \<Longrightarrow> i \<noteq> nxt N i"
  using nxt_neq by metis

lemma nxt_nxt_neq': "3 \<le> N \<Longrightarrow> i < N \<Longrightarrow> i \<noteq> nxt N (nxt N i)"
  using nxt_nxt_neq by metis

lemma dedges_cone_faces:
  "concat (map dedges (cone_faces N)) =
     concat (map (\<lambda>i. [(0, 2 + nxt N i), (2 + nxt N i, 2 + i), (2 + i, 0)]) [0..<N])
     @ concat (map (\<lambda>i. [(2 + i, 2 + nxt N i), (2 + nxt N i, 1), (1, 2 + i)]) [0..<N])"
  by (simp add: cone_faces_def Let_def o_def nxt_def)

lemma cone_dedges_distinct:
  assumes N: "3 \<le> N"
  shows "distinct (concat (map dedges (cone_faces N)))"
proof -
  note facts = nxt_less nxt_inj_iff nxt_neq nxt_neq' nxt_nxt_neq nxt_nxt_neq'
  have "distinct (concat (map (\<lambda>i. [(0, 2 + nxt N i), (2 + nxt N i, 2 + i), (2 + i, 0)]) [0..<N]))"
    using N by (intro distinct_concat_map_upt) (auto simp: facts)
  moreover have "distinct (concat (map (\<lambda>i. [(2 + i, 2 + nxt N i), (2 + nxt N i, 1), (1, 2 + i)]) [0..<N]))"
    using N by (intro distinct_concat_map_upt) (auto simp: facts)
  moreover have "set (concat (map (\<lambda>i. [(0, 2 + nxt N i), (2 + nxt N i, 2 + i), (2 + i, 0)]) [0..<N]))
      \<inter> set (concat (map (\<lambda>i. [(2 + i, 2 + nxt N i), (2 + nxt N i, 1), (1, 2 + i)]) [0..<N])) = {}"
    using N by (auto simp: facts)
  ultimately show ?thesis
    unfolding dedges_cone_faces by simp
qed

lemma in_dedges_cone_faces:
  "d \<in> set (concat (map dedges (cone_faces N))) \<longleftrightarrow>
     (\<exists>i<N. d = (0, 2 + nxt N i) \<or> d = (2 + nxt N i, 2 + i) \<or> d = (2 + i, 0)
        \<or> d = (2 + i, 2 + nxt N i) \<or> d = (2 + nxt N i, 1) \<or> d = (1, 2 + i))"
  unfolding dedges_cone_faces set_append Un_iff in_set_concat_map_upt by auto

lemma cone_dedges_sym:
  assumes N: "3 \<le> N" and d: "(a, b) \<in> set (concat (map dedges (cone_faces N)))"
  shows "(b, a) \<in> set (concat (map dedges (cone_faces N)))"
proof -
  from d obtain i where i: "i < N"
    and c: "(a, b) = (0, 2 + nxt N i) \<or> (a, b) = (2 + nxt N i, 2 + i) \<or> (a, b) = (2 + i, 0)
        \<or> (a, b) = (2 + i, 2 + nxt N i) \<or> (a, b) = (2 + nxt N i, 1) \<or> (a, b) = (1, 2 + i)"
    unfolding in_dedges_cone_faces by blast
  have n: "nxt N i < N" using N by (simp add: nxt_less)
  obtain p where p: "p < N" "nxt N p = i" using nxt_surj [OF i] by blast
  from c show ?thesis
  proof (elim disjE)
    assume "(a, b) = (0, 2 + nxt N i)"
    then have "(b, a) = (2 + nxt N i, 0)" by simp
    then show ?thesis unfolding in_dedges_cone_faces using n by blast
  next
    assume "(a, b) = (2 + nxt N i, 2 + i)"
    then have "(b, a) = (2 + i, 2 + nxt N i)" by simp
    then show ?thesis unfolding in_dedges_cone_faces using i by blast
  next
    assume "(a, b) = (2 + i, 0)"
    then have "(b, a) = (0, 2 + nxt N p)" using p by simp
    then show ?thesis unfolding in_dedges_cone_faces using p(1) by blast
  next
    assume "(a, b) = (2 + i, 2 + nxt N i)"
    then have "(b, a) = (2 + nxt N i, 2 + i)" by simp
    then show ?thesis unfolding in_dedges_cone_faces using i by blast
  next
    assume "(a, b) = (2 + nxt N i, 1)"
    then have "(b, a) = (1, 2 + nxt N i)" by simp
    then show ?thesis unfolding in_dedges_cone_faces using n by blast
  next
    assume "(a, b) = (1, 2 + i)"
    then have "(b, a) = (2 + nxt N p, 1)" using p by simp
    then show ?thesis unfolding in_dedges_cone_faces using p(1) by blast
  qed
qed

lemma cone_closed:
  assumes "3 \<le> N"
  shows "closed_mesh (vs, cone_faces N)"
proof (rule closed_if_oriented)
  show "\<forall>g\<in>set (cone_faces N). face_distinct g"
    using cone_faces_distinct [of N] assms by auto
  show "distinct (concat (map dedges (cone_faces N)))"
    using assms by (rule cone_dedges_distinct)
  show "(b, a) \<in> set (concat (map dedges (cone_faces N)))"
    if "(a, b) \<in> set (concat (map dedges (cone_faces N)))" for a b
    using assms that by (rule cone_dedges_sym)
qed

subsection \<open>The cylinder and the frustum\<close>

lemma nxt_not_ge: "0 < N \<Longrightarrow> nxt N i \<noteq> N + k" "0 < N \<Longrightarrow> N + k \<noteq> nxt N i"
  using nxt_less [of N i] by simp_all

lemma concat_map_concat_map:
  "concat (map f (concat (map c xs))) = concat (map (\<lambda>x. concat (map f (c x))) xs)"
  by (induction xs) simp_all

lemma dedges_cylinder_faces:
  "concat (map dedges (cylinder_faces N)) =
     concat (map (\<lambda>i. [(0, 2 + nxt N i), (2 + nxt N i, 2 + i), (2 + i, 0)]) [0..<N])
     @ concat (map (\<lambda>i. [(1, 2 + N + i), (2 + N + i, 2 + N + nxt N i), (2 + N + nxt N i, 1)]) [0..<N])
     @ concat (map (\<lambda>i. [(2 + i, 2 + nxt N i), (2 + nxt N i, 2 + N + nxt N i),
                           (2 + N + nxt N i, 2 + i), (2 + i, 2 + N + nxt N i),
                           (2 + N + nxt N i, 2 + N + i), (2 + N + i, 2 + i)]) [0..<N])"
  by (simp add: cylinder_faces_def Let_def o_def nxt_def concat_map_concat_map)

lemma cylinder_dedges_distinct:
  assumes N: "3 \<le> N"
  shows "distinct (concat (map dedges (cylinder_faces N)))"
proof -
  note facts = nxt_less nxt_inj_iff nxt_neq nxt_neq' nxt_nxt_neq nxt_nxt_neq' nxt_not_ge
  let ?A = "concat (map (\<lambda>i. [(0, 2 + nxt N i), (2 + nxt N i, 2 + i), (2 + i, 0)]) [0..<N])"
  let ?B = "concat (map (\<lambda>i. [(1, 2 + N + i), (2 + N + i, 2 + N + nxt N i), (2 + N + nxt N i, 1)]) [0..<N])"
  let ?C = "concat (map (\<lambda>i. [(2 + i, 2 + nxt N i), (2 + nxt N i, 2 + N + nxt N i),
                           (2 + N + nxt N i, 2 + i), (2 + i, 2 + N + nxt N i),
                           (2 + N + nxt N i, 2 + N + i), (2 + N + i, 2 + i)]) [0..<N])"
  have "distinct ?A"
    using N by (intro distinct_concat_map_upt) (auto simp: facts)
  moreover have "distinct ?B"
    using N by (intro distinct_concat_map_upt) (auto simp: facts)
  moreover have "distinct ?C"
    using N by (intro distinct_concat_map_upt) (auto simp: facts)
  moreover have "set ?A \<inter> set ?B = {}"
    using N by (auto simp: facts)
  moreover have "set ?A \<inter> set ?C = {}"
    using N by (auto simp: facts)
  moreover have "set ?B \<inter> set ?C = {}"
    using N by (auto simp: facts)
  ultimately show ?thesis
    unfolding dedges_cylinder_faces by (simp add: Int_Un_distrib)
qed

lemma in_dedges_cylinder_faces:
  "d \<in> set (concat (map dedges (cylinder_faces N))) \<longleftrightarrow>
     (\<exists>i<N. d = (0, 2 + nxt N i) \<or> d = (2 + nxt N i, 2 + i) \<or> d = (2 + i, 0)
        \<or> d = (1, 2 + N + i) \<or> d = (2 + N + i, 2 + N + nxt N i) \<or> d = (2 + N + nxt N i, 1)
        \<or> d = (2 + i, 2 + nxt N i) \<or> d = (2 + nxt N i, 2 + N + nxt N i)
        \<or> d = (2 + N + nxt N i, 2 + i) \<or> d = (2 + i, 2 + N + nxt N i)
        \<or> d = (2 + N + nxt N i, 2 + N + i) \<or> d = (2 + N + i, 2 + i))"
  unfolding dedges_cylinder_faces set_append Un_iff in_set_concat_map_upt by auto

lemma cylinder_dedges_sym:
  assumes N: "3 \<le> N" and d: "(a, b) \<in> set (concat (map dedges (cylinder_faces N)))"
  shows "(b, a) \<in> set (concat (map dedges (cylinder_faces N)))"
proof -
  from d obtain i where i: "i < N"
    and c: "(a, b) = (0, 2 + nxt N i) \<or> (a, b) = (2 + nxt N i, 2 + i) \<or> (a, b) = (2 + i, 0)
        \<or> (a, b) = (1, 2 + N + i) \<or> (a, b) = (2 + N + i, 2 + N + nxt N i)
        \<or> (a, b) = (2 + N + nxt N i, 1)
        \<or> (a, b) = (2 + i, 2 + nxt N i) \<or> (a, b) = (2 + nxt N i, 2 + N + nxt N i)
        \<or> (a, b) = (2 + N + nxt N i, 2 + i) \<or> (a, b) = (2 + i, 2 + N + nxt N i)
        \<or> (a, b) = (2 + N + nxt N i, 2 + N + i) \<or> (a, b) = (2 + N + i, 2 + i)"
    unfolding in_dedges_cylinder_faces by blast
  have n: "nxt N i < N" using N by (simp add: nxt_less)
  obtain p where p: "p < N" "nxt N p = i" using nxt_surj [OF i] by blast
  from c show ?thesis
  proof (elim disjE)
    assume "(a, b) = (0, 2 + nxt N i)"
    then have "(b, a) = (2 + nxt N i, 0)" by simp
    then show ?thesis unfolding in_dedges_cylinder_faces using n by blast
  next
    assume "(a, b) = (2 + nxt N i, 2 + i)"
    then have "(b, a) = (2 + i, 2 + nxt N i)" by simp
    then show ?thesis unfolding in_dedges_cylinder_faces using i by blast
  next
    assume "(a, b) = (2 + i, 0)"
    then have "(b, a) = (0, 2 + nxt N p)" using p by simp
    then show ?thesis unfolding in_dedges_cylinder_faces using p(1) by blast
  next
    assume "(a, b) = (1, 2 + N + i)"
    then have "(b, a) = (2 + N + nxt N p, 1)" using p by simp
    then show ?thesis unfolding in_dedges_cylinder_faces using p(1) by blast
  next
    assume "(a, b) = (2 + N + i, 2 + N + nxt N i)"
    then have "(b, a) = (2 + N + nxt N i, 2 + N + i)" by simp
    then show ?thesis unfolding in_dedges_cylinder_faces using i by blast
  next
    assume "(a, b) = (2 + N + nxt N i, 1)"
    then have "(b, a) = (1, 2 + N + nxt N i)" by simp
    then show ?thesis unfolding in_dedges_cylinder_faces using n by blast
  next
    assume "(a, b) = (2 + i, 2 + nxt N i)"
    then have "(b, a) = (2 + nxt N i, 2 + i)" by simp
    then show ?thesis unfolding in_dedges_cylinder_faces using i by blast
  next
    assume "(a, b) = (2 + nxt N i, 2 + N + nxt N i)"
    then have "(b, a) = (2 + N + nxt N i, 2 + nxt N i)" by simp
    then show ?thesis unfolding in_dedges_cylinder_faces using n by blast
  next
    assume "(a, b) = (2 + N + nxt N i, 2 + i)"
    then have "(b, a) = (2 + i, 2 + N + nxt N i)" by simp
    then show ?thesis unfolding in_dedges_cylinder_faces using i by blast
  next
    assume "(a, b) = (2 + i, 2 + N + nxt N i)"
    then have "(b, a) = (2 + N + nxt N i, 2 + i)" by simp
    then show ?thesis unfolding in_dedges_cylinder_faces using i by blast
  next
    assume "(a, b) = (2 + N + nxt N i, 2 + N + i)"
    then have "(b, a) = (2 + N + i, 2 + N + nxt N i)" by simp
    then show ?thesis unfolding in_dedges_cylinder_faces using i by blast
  next
    assume "(a, b) = (2 + N + i, 2 + i)"
    then have "(b, a) = (2 + nxt N p, 2 + N + nxt N p)" using p by simp
    then show ?thesis unfolding in_dedges_cylinder_faces using p(1) by blast
  qed
qed

lemma cylinder_closed:
  assumes "3 \<le> N"
  shows "closed_mesh (vs, cylinder_faces N)"
proof (rule closed_if_oriented)
  show "\<forall>g\<in>set (cylinder_faces N). face_distinct g"
    using cylinder_faces_distinct [of N] assms by auto
  show "distinct (concat (map dedges (cylinder_faces N)))"
    using assms by (rule cylinder_dedges_distinct)
  show "(b, a) \<in> set (concat (map dedges (cylinder_faces N)))"
    if "(a, b) \<in> set (concat (map dedges (cylinder_faces N)))" for a b
    using assms that by (rule cylinder_dedges_sym)
qed

subsection \<open>The sphere\<close>

lemma ring_vertex_inj:
  assumes "j < Nh" "j' < Nh"
  shows "ring_vertex Nh i j = ring_vertex Nh i' j' \<longleftrightarrow> i = i' \<and> j = j'"
proof
  assume "ring_vertex Nh i j = ring_vertex Nh i' j'"
  then have e: "i * Nh + j = i' * Nh + j'" by (simp add: ring_vertex_def)
  have "i = i'"
  proof (rule ccontr)
    assume "i \<noteq> i'"
    then consider "i < i'" | "i' < i" by linarith
    then show False
    proof cases
      case 1
      then have "i * Nh + j < i' * Nh" using assms(1) by (rule ring_index_less)
      with e show False by simp
    next
      case 2
      then have "i' * Nh + j' < i * Nh" using assms(2) by (rule ring_index_less)
      with e show False by simp
    qed
  qed
  with e show "i = i' \<and> j = j'" by simp
qed simp

lemma ring_vertex_pos: "ring_vertex Nh i j \<noteq> 0" "0 \<noteq> ring_vertex Nh i j"
  by (simp_all add: ring_vertex_def)

lemma dedges_sphere_faces:
  "concat (map dedges (sphere_faces (2 + (K + 1) * Nh) (K + 2) Nh)) =
     concat (map (\<lambda>j. [(0, ring_vertex Nh 0 (nxt Nh j)),
                        (ring_vertex Nh 0 (nxt Nh j), ring_vertex Nh 0 j),
                        (ring_vertex Nh 0 j, 0)]) [0..<Nh])
     @ concat (map (\<lambda>i. concat (map (\<lambda>j.
          [(ring_vertex Nh i j, ring_vertex Nh i (nxt Nh j)),
           (ring_vertex Nh i (nxt Nh j), ring_vertex Nh (i + 1) (nxt Nh j)),
           (ring_vertex Nh (i + 1) (nxt Nh j), ring_vertex Nh i j),
           (ring_vertex Nh i j, ring_vertex Nh (i + 1) (nxt Nh j)),
           (ring_vertex Nh (i + 1) (nxt Nh j), ring_vertex Nh (i + 1) j),
           (ring_vertex Nh (i + 1) j, ring_vertex Nh i j)]) [0..<Nh])) [0..<K])
     @ concat (map (\<lambda>j. [(ring_vertex Nh K j, ring_vertex Nh K (nxt Nh j)),
                          (ring_vertex Nh K (nxt Nh j), ring_vertex Nh (K + 1) 0),
                          (ring_vertex Nh (K + 1) 0, ring_vertex Nh K j)]) [0..<Nh])"
  by (simp add: sphere_faces_def Let_def o_def nxt_def concat_map_concat_map ring_vertex_def)

lemma sphere_dedges_distinct:
  assumes N: "3 \<le> Nh"
  shows "distinct (concat (map dedges (sphere_faces (2 + (K + 1) * Nh) (K + 2) Nh)))"
proof -
  note facts = nxt_less nxt_inj_iff nxt_neq nxt_neq' nxt_nxt_neq nxt_nxt_neq'
    ring_vertex_inj ring_vertex_pos
  let ?A = "concat (map (\<lambda>j. [(0, ring_vertex Nh 0 (nxt Nh j)),
                        (ring_vertex Nh 0 (nxt Nh j), ring_vertex Nh 0 j),
                        (ring_vertex Nh 0 j, 0)]) [0..<Nh])"
  let ?m = "\<lambda>i j.
          [(ring_vertex Nh i j, ring_vertex Nh i (nxt Nh j)),
           (ring_vertex Nh i (nxt Nh j), ring_vertex Nh (i + 1) (nxt Nh j)),
           (ring_vertex Nh (i + 1) (nxt Nh j), ring_vertex Nh i j),
           (ring_vertex Nh i j, ring_vertex Nh (i + 1) (nxt Nh j)),
           (ring_vertex Nh (i + 1) (nxt Nh j), ring_vertex Nh (i + 1) j),
           (ring_vertex Nh (i + 1) j, ring_vertex Nh i j)]"
  let ?M = "concat (map (\<lambda>i. concat (map (?m i) [0..<Nh])) [0..<K])"
  let ?S = "concat (map (\<lambda>j. [(ring_vertex Nh K j, ring_vertex Nh K (nxt Nh j)),
                          (ring_vertex Nh K (nxt Nh j), ring_vertex Nh (K + 1) 0),
                          (ring_vertex Nh (K + 1) 0, ring_vertex Nh K j)]) [0..<Nh])"
  have "distinct ?A"
    using N by (intro distinct_concat_map_upt) (auto simp: facts)
  moreover have "distinct ?S"
    using N by (intro distinct_concat_map_upt) (auto simp: facts)
  moreover have "distinct ?M"
  proof (rule distinct_concat_map_upt)
    fix i assume "i < K"
    show "distinct (concat (map (?m i) [0..<Nh]))"
      using N by (intro distinct_concat_map_upt) (auto simp: facts)
  next
    fix i i' assume "i < K" "i' < K" "i \<noteq> i'"
    then show "set (concat (map (?m i) [0..<Nh])) \<inter> set (concat (map (?m i') [0..<Nh])) = {}"
      using N by (auto simp: facts)
  qed
  moreover have "set ?A \<inter> set ?M = {}"
    using N by (auto simp: facts)
  moreover have "set ?A \<inter> set ?S = {}"
    using N by (auto simp: facts)
  moreover have "set ?M \<inter> set ?S = {}"
    using N by (auto simp: facts)
  ultimately show ?thesis
    unfolding dedges_sphere_faces by (simp add: Int_Un_distrib)
qed

lemma in_dedges_sphere_faces:
  "d \<in> set (concat (map dedges (sphere_faces (2 + (K + 1) * Nh) (K + 2) Nh))) \<longleftrightarrow>
     (\<exists>j<Nh. d = (0, ring_vertex Nh 0 (nxt Nh j))
        \<or> d = (ring_vertex Nh 0 (nxt Nh j), ring_vertex Nh 0 j)
        \<or> d = (ring_vertex Nh 0 j, 0))
     \<or> (\<exists>i<K. \<exists>j<Nh. d = (ring_vertex Nh i j, ring_vertex Nh i (nxt Nh j))
        \<or> d = (ring_vertex Nh i (nxt Nh j), ring_vertex Nh (i + 1) (nxt Nh j))
        \<or> d = (ring_vertex Nh (i + 1) (nxt Nh j), ring_vertex Nh i j)
        \<or> d = (ring_vertex Nh i j, ring_vertex Nh (i + 1) (nxt Nh j))
        \<or> d = (ring_vertex Nh (i + 1) (nxt Nh j), ring_vertex Nh (i + 1) j)
        \<or> d = (ring_vertex Nh (i + 1) j, ring_vertex Nh i j))
     \<or> (\<exists>j<Nh. d = (ring_vertex Nh K j, ring_vertex Nh K (nxt Nh j))
        \<or> d = (ring_vertex Nh K (nxt Nh j), ring_vertex Nh (K + 1) 0)
        \<or> d = (ring_vertex Nh (K + 1) 0, ring_vertex Nh K j))"
  unfolding dedges_sphere_faces set_append Un_iff in_set_concat_map_upt by auto

lemma sphere_dedges_sym:
  assumes N: "3 \<le> Nh" and K: "0 < K"
    and d: "(a, b) \<in> set (concat (map dedges (sphere_faces (2 + (K + 1) * Nh) (K + 2) Nh)))"
  shows "(b, a) \<in> set (concat (map dedges (sphere_faces (2 + (K + 1) * Nh) (K + 2) Nh)))"
proof -
  have n: "nxt Nh j < Nh" for j using N by (simp add: nxt_less)
  have s: "\<exists>p<Nh. nxt Nh p = j" if "j < Nh" for j using that by (rule nxt_surj)
  have K1: "K - 1 < K" "K - 1 + 1 = K" using K by simp_all
  from d [unfolded in_dedges_sphere_faces] show ?thesis
  proof (elim disjE exE conjE)
    fix j assume "j < Nh" "(a, b) = (0, ring_vertex Nh 0 (nxt Nh j))"
    then have "(b, a) = (ring_vertex Nh 0 (nxt Nh j), 0)" by simp
    then show ?thesis unfolding in_dedges_sphere_faces using n [of j] by blast
  next
    fix j assume j: "j < Nh" and "(a, b) = (ring_vertex Nh 0 (nxt Nh j), ring_vertex Nh 0 j)"
    then have "(b, a) = (ring_vertex Nh 0 j, ring_vertex Nh 0 (nxt Nh j))" by simp
    then show ?thesis unfolding in_dedges_sphere_faces using j K by blast
  next
    fix j assume j: "j < Nh" and e: "(a, b) = (ring_vertex Nh 0 j, 0)"
    from s [OF j] obtain p where "p < Nh" "nxt Nh p = j" by blast
    with e have "p < Nh" "(b, a) = (0, ring_vertex Nh 0 (nxt Nh p))" by simp_all
    then show ?thesis unfolding in_dedges_sphere_faces by blast
  next
    fix i j assume i: "i < K" and j: "j < Nh"
      and e: "(a, b) = (ring_vertex Nh i j, ring_vertex Nh i (nxt Nh j))"
    show ?thesis
    proof (cases i)
      case 0
      with e have "(b, a) = (ring_vertex Nh 0 (nxt Nh j), ring_vertex Nh 0 j)" by simp
      then show ?thesis unfolding in_dedges_sphere_faces using j by blast
    next
      case (Suc i')
      with e i have "i' < K" "(b, a) = (ring_vertex Nh (i' + 1) (nxt Nh j), ring_vertex Nh (i' + 1) j)"
        by simp_all
      then show ?thesis unfolding in_dedges_sphere_faces using j by blast
    qed
  next
    fix i j assume i: "i < K" and j: "j < Nh"
      and e: "(a, b) = (ring_vertex Nh i (nxt Nh j), ring_vertex Nh (i + 1) (nxt Nh j))"
    then have "(b, a) = (ring_vertex Nh (i + 1) (nxt Nh j), ring_vertex Nh i (nxt Nh j))" by simp
    then show ?thesis unfolding in_dedges_sphere_faces using i n [of j] by blast
  next
    fix i j assume i: "i < K" and j: "j < Nh"
      and e: "(a, b) = (ring_vertex Nh (i + 1) (nxt Nh j), ring_vertex Nh i j)"
    then have "(b, a) = (ring_vertex Nh i j, ring_vertex Nh (i + 1) (nxt Nh j))" by simp
    then show ?thesis unfolding in_dedges_sphere_faces using i j by blast
  next
    fix i j assume i: "i < K" and j: "j < Nh"
      and e: "(a, b) = (ring_vertex Nh i j, ring_vertex Nh (i + 1) (nxt Nh j))"
    then have "(b, a) = (ring_vertex Nh (i + 1) (nxt Nh j), ring_vertex Nh i j)" by simp
    then show ?thesis unfolding in_dedges_sphere_faces using i j by blast
  next
    fix i j assume i: "i < K" and j: "j < Nh"
      and e: "(a, b) = (ring_vertex Nh (i + 1) (nxt Nh j), ring_vertex Nh (i + 1) j)"
    show ?thesis
    proof (cases "i + 1 = K")
      case True
      with e have "(b, a) = (ring_vertex Nh K j, ring_vertex Nh K (nxt Nh j))" by simp
      then show ?thesis unfolding in_dedges_sphere_faces using j by blast
    next
      case False
      with i have "i + 1 < K" by simp
      moreover from e have "(b, a) = (ring_vertex Nh (i + 1) j, ring_vertex Nh (i + 1) (nxt Nh j))"
        by simp
      ultimately show ?thesis unfolding in_dedges_sphere_faces using j by blast
    qed
  next
    fix i j assume i: "i < K" and j: "j < Nh"
      and e: "(a, b) = (ring_vertex Nh (i + 1) j, ring_vertex Nh i j)"
    from s [OF j] obtain p where "p < Nh" "nxt Nh p = j" by blast
    with e have "p < Nh"
      "(b, a) = (ring_vertex Nh i (nxt Nh p), ring_vertex Nh (i + 1) (nxt Nh p))" by simp_all
    then show ?thesis unfolding in_dedges_sphere_faces using i by blast
  next
    fix j assume j: "j < Nh" and e: "(a, b) = (ring_vertex Nh K j, ring_vertex Nh K (nxt Nh j))"
    then have "(b, a) = (ring_vertex Nh (K - 1 + 1) (nxt Nh j), ring_vertex Nh (K - 1 + 1) j)"
      using K1 by simp
    then show ?thesis unfolding in_dedges_sphere_faces using j K1(1) by blast
  next
    fix j assume j: "j < Nh" and e: "(a, b) = (ring_vertex Nh K (nxt Nh j), ring_vertex Nh (K + 1) 0)"
    then have "(b, a) = (ring_vertex Nh (K + 1) 0, ring_vertex Nh K (nxt Nh j))" by simp
    then show ?thesis unfolding in_dedges_sphere_faces using n [of j] by blast
  next
    fix j assume j: "j < Nh" and e: "(a, b) = (ring_vertex Nh (K + 1) 0, ring_vertex Nh K j)"
    from s [OF j] obtain p where "p < Nh" "nxt Nh p = j" by blast
    with e have "p < Nh" "(b, a) = (ring_vertex Nh K (nxt Nh p), ring_vertex Nh (K + 1) 0)"
      by simp_all
    then show ?thesis unfolding in_dedges_sphere_faces by blast
  qed
qed

lemma sphere_closed:
  assumes "3 \<le> Nh" "3 \<le> Nv"
  shows "closed_mesh (vs, sphere_faces (2 + (Nv - 1) * Nh) Nv Nh)"
proof -
  define K where "K = Nv - 2"
  have K: "Nv = K + 2" "0 < K"
    using assms(2) by (simp_all add: K_def)
  have "closed_mesh (vs, sphere_faces (2 + (K + 1) * Nh) (K + 2) Nh)"
  proof (rule closed_if_oriented)
    show "\<forall>g\<in>set (sphere_faces (2 + (K + 1) * Nh) (K + 2) Nh). face_distinct g"
      using sphere_faces_distinct [of Nh "K + 2"] assms(1) by auto
    show "distinct (concat (map dedges (sphere_faces (2 + (K + 1) * Nh) (K + 2) Nh)))"
      using assms(1) by (rule sphere_dedges_distinct)
    show "(b, a) \<in> set (concat (map dedges (sphere_faces (2 + (K + 1) * Nh) (K + 2) Nh)))"
      if "(a, b) \<in> set (concat (map dedges (sphere_faces (2 + (K + 1) * Nh) (K + 2) Nh)))" for a b
      using assms(1) K(2) that by (rule sphere_dedges_sym)
  qed
  then show ?thesis using K(1) by simp
qed

text \<open>
  C2.  Every generator returns a closed mesh: every undirected edge of every returned
  face is an edge of exactly two faces of the returned face list.
\<close>

theorem generated_meshes_closed:
  "returns (create_cylinder_stl radius height n) closed_mesh
   \<and> returns (create_sphere_stl radius nv nh) closed_mesh
   \<and> returns (create_cone_stl radius height n) closed_mesh
   \<and> returns (create_cone_with_top_stl bottom_radius top_radius height n) closed_mesh"
  unfolding create_cylinder_stl_eq create_cone_stl_eq create_cone_with_top_stl_eq
    create_sphere_stl_eq returns_Inr frustum_faces_eq
  using cylinder_closed [OF clamp_ge3] sphere_closed [OF clamp_ge3 clamp_ge3]
    cone_closed [OF clamp_ge3]
  by blast

theorem generated_meshes_closed_witness:
  "returns (create_cylinder_stl 1 2 4)
     (\<lambda>m. (2, 7, 6) \<in> set (snd m) \<and> {2, 7} \<in> edges_of (2, 7, 6) \<and> edge_count {2, 7} (snd m) = 2)
   \<and> returns (create_sphere_stl 1 3 4)
     (\<lambda>m. (4, 1, 5) \<in> set (snd m) \<and> {4, 1} \<in> edges_of (4, 1, 5) \<and> edge_count {4, 1} (snd m) = 2)
   \<and> returns (create_cone_stl 1 1 3)
     (\<lambda>m. (0, 3, 2) \<in> set (snd m) \<and> {0, 3} \<in> edges_of (0, 3, 2) \<and> edge_count {0, 3} (snd m) = 2)
   \<and> returns (create_cone_with_top_stl 1 (1/2) 1 4)
     (\<lambda>m. (5, 6, 9) \<in> set (snd m) \<and> {9, 5} \<in> edges_of (5, 6, 9) \<and> edge_count {9, 5} (snd m) = 2)"
proof -
  have c: "closed_mesh (cylinder_vertices 1 2 4, cylinder_faces 4)"
    "closed_mesh (sphere_vertices 1 3 4, sphere_faces 10 3 4)"
    "closed_mesh (cone_vertices 1 1 3, cone_faces 3)"
    "closed_mesh (frustum_vertices 1 (1/2) 1 4, cylinder_faces 4)"
    using generated_meshes_closed [where radius = 1 and height = 2 and n = 4 and nv = 3 and nh = 4
        and bottom_radius = 1 and top_radius = "1/2"]
      generated_meshes_closed [where radius = 1 and height = 1 and n = 3 and nv = 3 and nh = 4
        and bottom_radius = 1 and top_radius = "1/2"]
      generated_meshes_closed [where radius = 1 and height = 1 and n = 4 and nv = 3 and nh = 4
        and bottom_radius = 1 and top_radius = "1/2"]
    by (simp_all add: create_cylinder_stl_eq create_cone_stl_eq create_cone_with_top_stl_eq
        create_sphere_stl_eq returns_Inr frustum_faces_eq)
  have f: "(2, 7, 6) \<in> set (cylinder_faces 4)" "(4, 1, 5) \<in> set (sphere_faces 10 3 4)"
    "(0, 3, 2) \<in> set (cone_faces 3)" "(5, 6, 9) \<in> set (cylinder_faces 4)"
    by (simp_all add: cylinder_faces_4 sphere_faces_3_4 cone_faces_3)
  have e: "{2, 7} \<in> edges_of (2, 7, 6)" "{4, 1} \<in> edges_of (4, 1, 5)"
    "{0, 3} \<in> edges_of (0, 3, 2)" "{9, 5} \<in> edges_of (5, 6, 9)"
    by simp_all
  have "edge_count {2, 7} (cylinder_faces 4) = 2"
    using c(1) f(1) e(1) unfolding closed_mesh_def snd_conv by blast
  moreover have "edge_count {4, 1} (sphere_faces 10 3 4) = 2"
    using c(2) f(2) e(2) unfolding closed_mesh_def snd_conv by blast
  moreover have "edge_count {0, 3} (cone_faces 3) = 2"
    using c(3) f(3) e(3) unfolding closed_mesh_def snd_conv by blast
  moreover have "edge_count {9, 5} (cylinder_faces 4) = 2"
    using c(4) f(4) e(4) unfolding closed_mesh_def snd_conv by blast
  ultimately show ?thesis
    using f e
    by (simp add: create_cylinder_stl_eq create_cone_stl_eq create_cone_with_top_stl_eq
        create_sphere_stl_eq returns_Inr frustum_faces_eq)
qed

section \<open>The direction of the normals\<close>

lemma norm3_nonneg: "0 \<le> norm3 v"
  by (cases v) simp

lemma norm3_eq_0: "norm3 v = 0 \<Longrightarrow> v = (0, 0, 0)"
proof (cases v)
  case (fields x y z)
  assume "norm3 v = 0"
  with fields have "x\<^sup>2 + y\<^sup>2 + z\<^sup>2 = 0" by simp
  then have "x = 0 \<and> y = 0 \<and> z = 0"
    by (metis add_nonneg_eq_0_iff power2_eq_iff_nonneg sum_power2_eq_zero_iff sum_power2_ge_zero
        zero_eq_power2 zero_le_power2 add_nonneg_nonneg)
  with fields show ?thesis by simp
qed

lemma dot_vdiv: "dot (vdiv v c) w = dot v w / c"
  by (cases v; cases w) (simp add: add_divide_distrib)

lemma dot_zero: "dot (0, 0, 0) w = 0"
  by (cases w) simp

lemma norm3_pos: "dot v w \<noteq> 0 \<Longrightarrow> 0 < norm3 v"
  using norm3_nonneg [of v] norm3_eq_0 [of v] dot_zero [of w] by fastforce

lemma triangle_normal_dot:
  "dot (triangle_normal (v0, v1, v2)) w
     = dot (cross (vsub v1 v0) (vsub v2 v0)) w / norm3 (cross (vsub v1 v0) (vsub v2 v0))"
  by (simp add: Let_def dot_vdiv)

lemma triangle_normal_dot_pos:
  assumes "0 < dot (cross (vsub v1 v0) (vsub v2 v0)) w"
  shows "0 < dot (triangle_normal (v0, v1, v2)) w"
proof -
  have "0 < norm3 (cross (vsub v1 v0) (vsub v2 v0))"
    using assms by (intro norm3_pos [of _ w]) simp
  with assms show ?thesis unfolding triangle_normal_dot by simp
qed

lemma triangle_normal_dot_neg:
  assumes "dot (cross (vsub v1 v0) (vsub v2 v0)) w < 0"
  shows "dot (triangle_normal (v0, v1, v2)) w < 0"
proof -
  have "0 < norm3 (cross (vsub v1 v0) (vsub v2 v0))"
    using assms by (intro norm3_pos [of _ w]) simp
  with assms show ?thesis unfolding triangle_normal_dot by (simp add: divide_neg_pos)
qed

text \<open>
  The triple products of the three kinds of faces.  \<open>ci, si\<close> and \<open>cn, sn\<close> stand for the
  cosine and sine of the angle of a ring vertex and of the next one, \<open>S\<close> for the sine of
  the angle between them.
\<close>

lemma cap_triple:
  assumes "cn * si - sn * ci = - S"
  shows "dot (cross (vsub (r * cn, r * sn, z1) (0, 0, z0)) (vsub (r * ci, r * si, z1) (0, 0, z0)))
           (vsub (0, 0, z0) (0, 0, zc)) = - (r * r * S * (z0 - zc))"
    and "dot (cross (vsub (r * ci, r * si, z1) (0, 0, z0)) (vsub (r * cn, r * sn, z1) (0, 0, z0)))
           (vsub (0, 0, z0) (0, 0, zc)) = r * r * S * (z0 - zc)"
  using assms by (simp_all, algebra+)

lemma side_triple:
  assumes "cn * si - sn * ci = - S"
  shows "dot (cross (vsub (rb * cn, rb * sn, zb) (rb * ci, rb * si, zb))
                    (vsub (rt * cn, rt * sn, zt) (rb * ci, rb * si, zb)))
           (vsub (rb * ci, rb * si, zb) (0, 0, zc))
         = rb * S * ((zt - zc) * rb + (zc - zb) * rt)"
    and "dot (cross (vsub (rt * cn, rt * sn, zt) (rb * ci, rb * si, zb))
                    (vsub (rt * ci, rt * si, zt) (rb * ci, rb * si, zb)))
           (vsub (rb * ci, rb * si, zb) (0, 0, zc))
         = rt * S * ((zt - zc) * rb + (zc - zb) * rt)"
  using assms by (simp_all, algebra+)

lemma points_away_fromI:
  assumes "face_in_range (length vs) (a, b, c)"
    and "0 < dot (cross (vsub (vs ! b) (vs ! a)) (vsub (vs ! c) (vs ! a))) (vsub (vs ! a) ce)"
  shows "points_away_from ce vs (a, b, c)"
  unfolding points_away_from_def face_vectors_in_range [OF assms(1)]
  using triangle_normal_dot_pos [OF assms(2)] by simp

lemma points_towardsI:
  assumes "face_in_range (length vs) (a, b, c)"
    and "dot (cross (vsub (vs ! b) (vs ! a)) (vsub (vs ! c) (vs ! a))) (vsub (vs ! a) ce) < 0"
  shows "points_towards ce vs (a, b, c)"
  unfolding points_towards_def face_vectors_in_range [OF assms(1)]
  using triangle_normal_dot_neg [OF assms(2)] by simp

lemma cylinder_faces_point_outward:
  assumes r: "0 < r" and h: "0 < h" and N: "3 \<le> N" and f: "f \<in> set (cylinder_faces N)"
  shows "points_away_from (0, 0, 0) (cylinder_vertices r h N) f"
proof -
  let ?vs = "cylinder_vertices r h N"
  let ?S = "sin (2 * pi / real N)"
  have S: "0 < ?S" using N by (rule sin_segment_pos)
  have rng: "face_in_range (length ?vs) f"
    unfolding length_cylinder_vertices using f N by (intro cylinder_faces_in_range) simp_all
  have n: "nxt N i < N" for i using N by (simp add: nxt_less)
  note v = nth_cylinder_vertices
  from f [unfolded in_set_cylinder_faces] show ?thesis
  proof (elim disjE exE conjE)
    fix i assume i: "i < N" and e: "f = (0, 2 + nxt N i, 2 + i)"
    have "0 < - (r * r * ?S * (- h / 2 - 0))" using r h S by simp
    then show ?thesis
      using rng unfolding e
      by (intro points_away_fromI)
         (simp_all only: v(1) v(3) [OF n] v(3) [OF i] cap_triple(1) [OF ring_cross_z [OF i]])
  next
    fix i assume i: "i < N" and e: "f = (1, 2 + N + i, 2 + N + nxt N i)"
    have "0 < r * r * ?S * (h / 2 - 0)" using r h S by simp
    then show ?thesis
      using rng unfolding e
      by (intro points_away_fromI)
         (simp_all only: v(2) v(4) [OF n] v(4) [OF i] cap_triple(2) [OF ring_cross_z [OF i]])
  next
    fix i assume i: "i < N" and e: "f = (2 + i, 2 + nxt N i, 2 + N + nxt N i)"
    have "0 < r * ?S * ((h / 2 - 0) * r + (0 - - h / 2) * r)" using r h S by simp
    then show ?thesis
      using rng unfolding e
      by (intro points_away_fromI)
         (simp_all only: v(3) [OF n] v(3) [OF i] v(4) [OF n] side_triple(1) [OF ring_cross_z [OF i]])
  next
    fix i assume i: "i < N" and e: "f = (2 + i, 2 + N + nxt N i, 2 + N + i)"
    have "0 < r * ?S * ((h / 2 - 0) * r + (0 - - h / 2) * r)" using r h S by simp
    then show ?thesis
      using rng unfolding e
      by (intro points_away_fromI)
         (simp_all only: v(3) [OF i] v(4) [OF i] v(4) [OF n] side_triple(2) [OF ring_cross_z [OF i]])
  qed
qed

lemma apex_triple:
  assumes "cn * si - sn * ci = - S"
  shows "dot (cross (vsub (rb * cn, rb * sn, zb) (rb * ci, rb * si, zb))
                    (vsub (0, 0, zt) (rb * ci, rb * si, zb)))
           (vsub (rb * ci, rb * si, zb) (0, 0, zc))
         = rb * S * ((zt - zc) * rb)"
  using assms by (simp, algebra)

lemma nth_cone_vertices:
  "cone_vertices r h N ! 0 = (0, 0, 0)"
  "cone_vertices r h N ! 1 = (0, 0, h)"
  "k < N \<Longrightarrow> cone_vertices r h N ! (2 + k)
     = (r * cos (2 * pi * real k / real N), r * sin (2 * pi * real k / real N), 0)"
  by (simp_all add: cone_vertices_def nth_append Let_def)

lemma nth_frustum_vertices:
  "frustum_vertices rb rt h N ! 0 = (0, 0, 0)"
  "frustum_vertices rb rt h N ! 1 = (0, 0, h)"
  "k < N \<Longrightarrow> frustum_vertices rb rt h N ! (2 + k)
     = (rb * cos (2 * pi * real k / real N), rb * sin (2 * pi * real k / real N), 0)"
  "k < N \<Longrightarrow> frustum_vertices rb rt h N ! (2 + N + k)
     = (rt * cos (2 * pi * real k / real N), rt * sin (2 * pi * real k / real N), h)"
  by (simp_all add: frustum_vertices_def nth_append Let_def)

lemma cone_faces_point_outward:
  assumes r: "0 < r" and h: "0 < h" and N: "3 \<le> N" and f: "f \<in> set (cone_faces N)"
  shows "points_away_from (0, 0, h / 2) (cone_vertices r h N) f"
proof -
  let ?vs = "cone_vertices r h N"
  let ?S = "sin (2 * pi / real N)"
  have S: "0 < ?S" using N by (rule sin_segment_pos)
  have rng: "face_in_range (length ?vs) f"
    unfolding length_cone_vertices using f N by (intro cone_faces_in_range) simp_all
  have n: "nxt N i < N" for i using N by (simp add: nxt_less)
  note v = nth_cone_vertices
  from f [unfolded in_set_cone_faces] show ?thesis
  proof (elim disjE exE conjE)
    fix i assume i: "i < N" and e: "f = (0, 2 + nxt N i, 2 + i)"
    have "0 < - (r * r * ?S * (0 - h / 2))" using r h S by simp
    then show ?thesis
      using rng unfolding e
      by (intro points_away_fromI)
         (simp_all only: v(1) v(3) [OF n] v(3) [OF i] cap_triple(1) [OF ring_cross_z [OF i]])
  next
    fix i assume i: "i < N" and e: "f = (2 + i, 2 + nxt N i, 1)"
    have "0 < r * ?S * ((h - h / 2) * r)" using r h S by simp
    then show ?thesis
      using rng unfolding e
      by (intro points_away_fromI)
         (simp_all only: v(2) v(3) [OF n] v(3) [OF i] apex_triple [OF ring_cross_z [OF i]])
  qed
qed

lemma frustum_faces_point_outward:
  assumes rb: "0 < rb" and rt: "0 < rt" and h: "0 < h" and N: "3 \<le> N"
    and f: "f \<in> set (frustum_faces N)"
  shows "points_away_from (0, 0, h / 2) (frustum_vertices rb rt h N) f"
proof -
  let ?vs = "frustum_vertices rb rt h N"
  let ?S = "sin (2 * pi / real N)"
  have S: "0 < ?S" using N by (rule sin_segment_pos)
  have f': "f \<in> set (cylinder_faces N)" using f by (simp add: frustum_faces_eq)
  have rng: "face_in_range (length ?vs) f"
    unfolding length_frustum_vertices using f' N by (intro cylinder_faces_in_range) simp_all
  have n: "nxt N i < N" for i using N by (simp add: nxt_less)
  have p: "0 < (h - h / 2) * rb + (h / 2 - 0) * rt"
    using rb rt h by (simp add: add_pos_pos)
  note v = nth_frustum_vertices
  from f' [unfolded in_set_cylinder_faces] show ?thesis
  proof (elim disjE exE conjE)
    fix i assume i: "i < N" and e: "f = (0, 2 + nxt N i, 2 + i)"
    have "0 < - (rb * rb * ?S * (0 - h / 2))" using rb h S by simp
    then show ?thesis
      using rng unfolding e
      by (intro points_away_fromI)
         (simp_all only: v(1) v(3) [OF n] v(3) [OF i] cap_triple(1) [OF ring_cross_z [OF i]])
  next
    fix i assume i: "i < N" and e: "f = (1, 2 + N + i, 2 + N + nxt N i)"
    have "0 < rt * rt * ?S * (h - h / 2)" using rt h S by simp
    then show ?thesis
      using rng unfolding e
      by (intro points_away_fromI)
         (simp_all only: v(2) v(4) [OF n] v(4) [OF i] cap_triple(2) [OF ring_cross_z [OF i]])
  next
    fix i assume i: "i < N" and e: "f = (2 + i, 2 + nxt N i, 2 + N + nxt N i)"
    have "0 < rb * ?S * ((h - h / 2) * rb + (h / 2 - 0) * rt)"
      using rb S p by (intro mult_pos_pos)
    then show ?thesis
      using rng unfolding e
      by (intro points_away_fromI)
         (simp_all only: v(3) [OF n] v(3) [OF i] v(4) [OF n] side_triple(1) [OF ring_cross_z [OF i]])
  next
    fix i assume i: "i < N" and e: "f = (2 + i, 2 + N + nxt N i, 2 + N + i)"
    have "0 < rt * ?S * ((h - h / 2) * rb + (h / 2 - 0) * rt)"
      using rt S p by (intro mult_pos_pos)
    then show ?thesis
      using rng unfolding e
      by (intro points_away_fromI)
         (simp_all only: v(3) [OF i] v(4) [OF i] v(4) [OF n] side_triple(2) [OF ring_cross_z [OF i]])
  qed
qed

lemma nth_concat_const:
  assumes "\<And>x. x \<in> set xs \<Longrightarrow> length (f x) = n" "i < length xs" "j < n"
  shows "concat (map f xs) ! (i * n + j) = f (xs ! i) ! j"
  using assms
proof (induction xs arbitrary: i)
  case Nil
  then show ?case by simp
next
  case (Cons x xs)
  have len: "length (f x) = n" using Cons.prems(1) by simp
  show ?case
  proof (cases i)
    case 0
    with len Cons.prems(3) show ?thesis by (simp add: nth_append)
  next
    case (Suc i')
    have "concat (map f xs) ! (i' * n + j) = f (xs ! i') ! j"
      using Cons.prems Suc by (intro Cons.IH) simp_all
    with len Suc show ?thesis by (simp add: nth_append)
  qed
qed

lemma nth_sphere_vertices_ring:
  assumes "i < Nv - 1" "j < Nh"
  shows "sphere_vertices r Nv Nh ! ring_vertex Nh i j
     = (r * sin (pi * real (i + 1) / real Nv) * cos (2 * pi * real j / real Nh),
        r * sin (pi * real (i + 1) / real Nv) * sin (2 * pi * real j / real Nh),
        r * cos (pi * real (i + 1) / real Nv))"
proof -
  let ?g = "\<lambda>i. map (\<lambda>j. (r * sin (pi * real i / real Nv) * cos (2 * pi * real j / real Nh),
        r * sin (pi * real i / real Nv) * sin (2 * pi * real j / real Nh),
        r * cos (pi * real i / real Nv))) [0..<Nh]"
  have c: "concat (map ?g [1..<Nv]) ! (i * Nh + j) = ?g ([1..<Nv] ! i) ! j"
    using assms by (intro nth_concat_const) simp_all
  have l: "length (concat (map ?g [1..<Nv])) = (Nv - 1) * Nh"
    by (simp add: length_concat_const [where k = Nh])
  have b: "i * Nh + j < (Nv - 1) * Nh" using assms by (rule ring_index_less)
  have "sphere_vertices r Nv Nh ! ring_vertex Nh i j = concat (map ?g [1..<Nv]) ! (i * Nh + j)"
    using b l by (simp add: sphere_vertices_def ring_vertex_def Let_def nth_append)
  also have "\<dots> = ?g ([1..<Nv] ! i) ! j" by (rule c)
  finally show ?thesis using assms by simp
qed

lemma nth_sphere_vertices_poles:
  "sphere_vertices r Nv Nh ! 0 = (0, 0, r)"
  "sphere_vertices r Nv Nh ! ring_vertex Nh (Nv - 1) 0 = (0, 0, - r)"
proof -
  show "sphere_vertices r Nv Nh ! 0 = (0, 0, r)" by (simp add: sphere_vertices_def)
  have "ring_vertex Nh (Nv - 1) 0 = length (sphere_vertices r Nv Nh) - 1"
    by (simp add: ring_vertex_def length_sphere_vertices)
  moreover have "sphere_vertices r Nv Nh ! (length (sphere_vertices r Nv Nh) - 1) = (0, 0, - r)"
    by (simp add: sphere_vertices_def nth_append)
  ultimately show "sphere_vertices r Nv Nh ! ring_vertex Nh (Nv - 1) 0 = (0, 0, - r)" by simp
qed

lemma in_set_sphere_faces_ring:
  "f \<in> set (sphere_faces (2 + (K + 1) * Nh) (K + 2) Nh) \<longleftrightarrow>
     (\<exists>j<Nh. f = (0, ring_vertex Nh 0 (nxt Nh j), ring_vertex Nh 0 j))
     \<or> (\<exists>i<K. \<exists>j<Nh.
          f = (ring_vertex Nh i j, ring_vertex Nh i (nxt Nh j), ring_vertex Nh (i + 1) (nxt Nh j))
          \<or> f = (ring_vertex Nh i j, ring_vertex Nh (i + 1) (nxt Nh j), ring_vertex Nh (i + 1) j))
     \<or> (\<exists>j<Nh. f = (ring_vertex Nh K j, ring_vertex Nh K (nxt Nh j), ring_vertex Nh (K + 1) 0))"
  unfolding in_set_sphere_faces ring_vertex_def by simp

lemma sin_latitude_pos:
  assumes "0 < m" "m < Nv"
  shows "0 < sin (pi * real m / real Nv)"
proof (rule sin_gt_zero)
  show "0 < pi * real m / real Nv" using assms by simp
  have "real m < real Nv" using assms by simp
  then have "pi * real m < pi * real Nv" by simp
  then show "pi * real m / real Nv < pi" using assms by (simp add: field_simps)
qed

lemma latitude_step:
  assumes "0 < Nv"
  shows "cos (pi * real (m + 1) / real Nv) * sin (pi * real m / real Nv)
         - cos (pi * real m / real Nv) * sin (pi * real (m + 1) / real Nv)
         = - sin (pi / real Nv)"
proof -
  have "pi * real m / real Nv - pi * real (m + 1) / real Nv = - (pi / real Nv)"
    using assms by (simp add: field_simps)
  then have "sin (pi * real m / real Nv - pi * real (m + 1) / real Nv) = - sin (pi / real Nv)"
    by (simp only: sin_minus)
  then show ?thesis by (simp add: sin_diff mult.commute)
qed

lemma sphere_faces_point_inward:
  assumes r: "0 < r" and Nh: "3 \<le> Nh"
    and f: "f \<in> set (sphere_faces (2 + (K + 1) * Nh) (K + 2) Nh)"
  shows "points_towards (0, 0, 0) (sphere_vertices r (K + 2) Nh) f"
proof -
  let ?vs = "sphere_vertices r (K + 2) Nh"
  let ?S = "sin (2 * pi / real Nh)"
  let ?T = "sin (pi / real (K + 2))"
  let ?s = "\<lambda>m. sin (pi * real m / real (K + 2))"
  let ?c = "\<lambda>m. cos (pi * real m / real (K + 2))"
  have S: "0 < ?S" using Nh by (rule sin_segment_pos)
  have T: "0 < ?T" using sin_latitude_pos [of 1 "K + 2"] by simp
  have s: "0 < ?s (i + 1)" if "i < K + 1" for i
    using that by (intro sin_latitude_pos) simp_all
  have rng: "face_in_range (length ?vs) f"
    unfolding length_sphere_vertices using f Nh
    by (intro sphere_faces_in_range) simp_all
  have n: "nxt Nh j < Nh" for j using Nh by (simp add: nxt_less)
  have ring: "?vs ! ring_vertex Nh i j
     = (r * ?s (i + 1) * cos (2 * pi * real j / real Nh),
        r * ?s (i + 1) * sin (2 * pi * real j / real Nh), r * ?c (i + 1))"
    if "i < K + 1" "j < Nh" for i j
    using that by (intro nth_sphere_vertices_ring) simp_all
  have north: "?vs ! 0 = (0, 0, r)" by (rule nth_sphere_vertices_poles)
  have south: "?vs ! ring_vertex Nh (K + 1) 0 = (0, 0, - r)"
    using nth_sphere_vertices_poles(2) [of r "K + 2" Nh] by simp
  have step: "(r * ?c (i + 1 + 1) - 0) * (r * ?s (i + 1)) + (0 - r * ?c (i + 1)) * (r * ?s (i + 1 + 1))
      = - (r * r * ?T)" for i
  proof -
    have "?c (i + 1 + 1) * ?s (i + 1) - ?c (i + 1) * ?s (i + 1 + 1) = - ?T"
      by (rule latitude_step) simp
    then show ?thesis by algebra
  qed
  from f [unfolded in_set_sphere_faces_ring] show ?thesis
  proof (elim disjE exE conjE)
    fix j assume j: "j < Nh" and e: "f = (0, ring_vertex Nh 0 (nxt Nh j), ring_vertex Nh 0 j)"
    have "0 < r * ?s (0 + 1) * (r * ?s (0 + 1)) * ?S * (r - 0)"
      using r S s [of 0] by simp
    then have "- (r * ?s (0 + 1) * (r * ?s (0 + 1)) * ?S * (r - 0)) < 0" by simp
    then show ?thesis
      using rng unfolding e
      by (intro points_towardsI)
         (simp_all only: north ring [OF _ n] ring [OF _ j] zero_less_Suc add_Suc_right
            add_0_right One_nat_def cap_triple(1) [OF ring_cross_z [OF j]])
  next
    fix i j assume i: "i < K" and j: "j < Nh"
      and e: "f = (ring_vertex Nh i j, ring_vertex Nh i (nxt Nh j), ring_vertex Nh (i + 1) (nxt Nh j))"
    have i1: "i < K + 1" "i + 1 < K + 1" using i by simp_all
    have "r * ?s (i + 1) * ?S * (- (r * r * ?T)) < 0"
      using r S T s [OF i1(1)] by (simp add: mult_pos_pos)
    then have "r * ?s (i + 1) * ?S * ((r * ?c (i + 1 + 1) - 0) * (r * ?s (i + 1))
        + (0 - r * ?c (i + 1)) * (r * ?s (i + 1 + 1))) < 0"
      unfolding step .
    then show ?thesis
      using rng unfolding e
      by (intro points_towardsI)
         (simp_all only: ring [OF i1(1) n] ring [OF i1(1) j] ring [OF i1(2) n]
            side_triple(1) [OF ring_cross_z [OF j]])
  next
    fix i j assume i: "i < K" and j: "j < Nh"
      and e: "f = (ring_vertex Nh i j, ring_vertex Nh (i + 1) (nxt Nh j), ring_vertex Nh (i + 1) j)"
    have i1: "i < K + 1" "i + 1 < K + 1" using i by simp_all
    have "r * ?s (i + 1 + 1) * ?S * (- (r * r * ?T)) < 0"
      using r S T s [OF i1(2)] by (simp add: mult_pos_pos)
    then have "r * ?s (i + 1 + 1) * ?S * ((r * ?c (i + 1 + 1) - 0) * (r * ?s (i + 1))
        + (0 - r * ?c (i + 1)) * (r * ?s (i + 1 + 1))) < 0"
      unfolding step .
    then show ?thesis
      using rng unfolding e
      by (intro points_towardsI)
         (simp_all only: ring [OF i1(1) j] ring [OF i1(2) j] ring [OF i1(2) n]
            side_triple(2) [OF ring_cross_z [OF j]])
  next
    fix j assume j: "j < Nh"
      and e: "f = (ring_vertex Nh K j, ring_vertex Nh K (nxt Nh j), ring_vertex Nh (K + 1) 0)"
    have K1: "K < K + 1" by simp
    have "r * ?s (K + 1) * ?S * ((- r - 0) * (r * ?s (K + 1))) < 0"
      using r S s [OF K1] by (simp add: mult_pos_pos mult_less_0_iff zero_less_mult_iff)
    then show ?thesis
      using rng unfolding e
      by (intro points_towardsI)
         (simp_all only: south ring [OF K1 n] ring [OF K1 j] apex_triple [OF ring_cross_z [OF j]])
  qed
qed

lemma towards_not_away: "points_towards c vs f \<Longrightarrow> \<not> points_away_from c vs f"
  by (auto simp: points_towards_def points_away_from_def split: sum.splits)

text \<open>
  The generators of the cylinder, the cone and the frustum wind every face so that its
  normal points away from the interior, for positive radii and a positive height.  The
  interior point is the centre of the cylinder, and the middle of the axis of the cone and
  of the frustum.
\<close>

lemma cylinder_cone_frustum_normals_outward:
  assumes "0 < radius" "0 < height" "0 < bottom_radius" "0 < top_radius"
  shows "returns (create_cylinder_stl radius height n)
      (\<lambda>m. \<forall>f \<in> set (snd m). points_away_from (0, 0, 0) (fst m) f)
    \<and> returns (create_cone_stl radius height n)
      (\<lambda>m. \<forall>f \<in> set (snd m). points_away_from (0, 0, height / 2) (fst m) f)
    \<and> returns (create_cone_with_top_stl bottom_radius top_radius height n)
      (\<lambda>m. \<forall>f \<in> set (snd m). points_away_from (0, 0, height / 2) (fst m) f)"
  unfolding create_cylinder_stl_eq create_cone_stl_eq create_cone_with_top_stl_eq
    returns_Inr fst_conv snd_conv
  using cylinder_faces_point_outward [OF assms(1,2) clamp_ge3]
    cone_faces_point_outward [OF assms(1,2) clamp_ge3]
    frustum_faces_point_outward [OF assms(3,4,2) clamp_ge3]
  by blast

text \<open>
  C1, where the code departs from it.  For a positive radius, every face the sphere
  generator returns has its normal pointing towards the centre of the sphere, into the
  solid and not away from it: the north fan, the bands and the south fan are all wound the
  other way round.
\<close>

theorem sphere_normals_point_inward:
  assumes "0 < radius"
  shows "returns (create_sphere_stl radius nv nh)
      (\<lambda>m. \<forall>f \<in> set (snd m).
         points_towards (0, 0, 0) (fst m) f \<and> \<not> points_away_from (0, 0, 0) (fst m) f)"
proof -
  define K where "K = nat (max 3 nv) - 2"
  have K: "nat (max 3 nv) = K + 2"
    by (simp add: K_def)
  have e: "create_sphere_stl radius nv nh =
      Inr (sphere_vertices radius (K + 2) (nat (max 3 nh)),
           sphere_faces (2 + (K + 1) * nat (max 3 nh)) (K + 2) (nat (max 3 nh)))"
    unfolding create_sphere_stl_eq K by simp
  show ?thesis
    unfolding e returns_Inr fst_conv snd_conv
    using sphere_faces_point_inward [OF assms clamp_ge3] towards_not_away
    by blast
qed

theorem sphere_normals_point_inward_witness:
  "(0::real) < 1
   \<and> returns (create_sphere_stl 1 3 4)
      (\<lambda>m. snd m ! 0 = (0, 2, 1) \<and> (0, 2, 1) \<in> set (snd m)
         \<and> points_towards (0, 0, 0) (fst m) (0, 2, 1)
         \<and> \<not> points_away_from (0, 0, 0) (fst m) (0, 2, 1))"
proof -
  have p: "(0::real) < 1" by simp
  have f: "(0, 2, 1) \<in> set (sphere_faces 10 3 4)" "sphere_faces 10 3 4 ! 0 = (0, 2, 1)"
    by (simp_all add: sphere_faces_3_4)
  have "\<forall>f \<in> set (sphere_faces 10 3 4).
      points_towards (0, 0, 0) (sphere_vertices 1 3 4) f
      \<and> \<not> points_away_from (0, 0, 0) (sphere_vertices 1 3 4) f"
    using sphere_normals_point_inward [OF p, of 3 4]
    by (simp add: create_sphere_stl_eq returns_Inr)
  with f(1) have "points_towards (0, 0, 0) (sphere_vertices 1 3 4) (0, 2, 1)
      \<and> \<not> points_away_from (0, 0, 0) (sphere_vertices 1 3 4) (0, 2, 1)"
    by blast
  with f show ?thesis
    by (simp add: create_sphere_stl_eq returns_Inr)
qed

end
